theory Spec2Isabelle
  imports Complex_Main "HOL-Library.Sublist"
begin

section \<open>JavaScript values used by the web client\<close>

text \<open>
  The client is JavaScript. A number is a binary64 value, modelled as the rational it
  denotes, or one of the three non-finite values a division can produce, so that a
  division by zero is visible in the model as \<open>PosInf\<close>, \<open>NegInf\<close> or \<open>NaN\<close>. Every
  division and multiplication returns the binary64 value nearest to the exact result, a
  tie going to the even significand. The range of the exponent and the sign of zero are
  not modelled: the numbers met here are far from overflow and underflow. Counts carried
  by server messages are integers that binary64 holds exactly.
\<close>

datatype 'a ext = Fin 'a | PosInf | NegInf | NaN

type_synonym jsnum = "rat ext"

subsection \<open>Rounding to binary64\<close>

text \<open>The number of binary digits of \<open>n\<close>.\<close>

fun bit_length :: "nat \<Rightarrow> nat" where
  "bit_length n = (if n = 0 then 0 else Suc (bit_length (n div 2)))"

declare bit_length.simps [simp del]

text \<open>For \<open>x > 0\<close> the exponent \<open>k\<close> with \<open>2^k \<le> x < 2^(k+1)\<close>.\<close>

definition ilog2 :: "rat \<Rightarrow> int" where
  "ilog2 x = (if 1 \<le> x then int (bit_length (nat \<lfloor>x\<rfloor>)) - 1
              else - int (bit_length (nat (\<lceil>1 / x\<rceil> - 1))))"

text \<open>The integer nearest to \<open>t\<close>, the even one at a tie.\<close>

definition round_even :: "rat \<Rightarrow> int" where
  "round_even t =
     (let f = \<lfloor>t\<rfloor>; r = t - of_int f
      in if r < 1 / 2 then f else if 1 / 2 < r then f + 1 else if even f then f else f + 1)"

text \<open>The binary64 value nearest to \<open>x\<close>: a significand of 53 binary digits, obtained by
  rounding \<open>x\<close> on the grid of step \<open>2^(k-52)\<close>.\<close>

definition double_pos :: "rat \<Rightarrow> rat" where
  "double_pos x = of_int (round_even (x / 2 powi (ilog2 x - 52))) * 2 powi (ilog2 x - 52)"

definition double :: "rat \<Rightarrow> rat" where
  "double x = (if x = 0 then 0 else if 0 < x then double_pos x else - double_pos (- x))"

subsection \<open>Arithmetic\<close>

text \<open>The infinity with the sign of \<open>a\<close>; \<open>0 * Infinity\<close> and \<open>0 / 0\<close> are \<open>NaN\<close>.\<close>

definition inf_of_sign :: "rat \<Rightarrow> jsnum" where
  "inf_of_sign a = (if 0 < a then PosInf else if a < 0 then NegInf else NaN)"

fun js_div :: "jsnum \<Rightarrow> jsnum \<Rightarrow> jsnum" where
  "js_div (Fin a) (Fin b) = (if b \<noteq> 0 then Fin (double (a / b)) else inf_of_sign a)"
| "js_div (Fin a) PosInf = Fin 0"
| "js_div (Fin a) NegInf = Fin 0"
| "js_div PosInf (Fin b) = (if 0 \<le> b then PosInf else NegInf)"
| "js_div NegInf (Fin b) = (if 0 \<le> b then NegInf else PosInf)"
| "js_div _ _ = NaN"

fun js_mul :: "jsnum \<Rightarrow> jsnum \<Rightarrow> jsnum" where
  "js_mul (Fin a) (Fin b) = Fin (double (a * b))"
| "js_mul (Fin a) PosInf = inf_of_sign a"
| "js_mul (Fin a) NegInf = inf_of_sign (- a)"
| "js_mul PosInf (Fin b) = inf_of_sign b"
| "js_mul NegInf (Fin b) = inf_of_sign (- b)"
| "js_mul PosInf PosInf = PosInf"
| "js_mul PosInf NegInf = NegInf"
| "js_mul NegInf PosInf = NegInf"
| "js_mul NegInf NegInf = PosInf"
| "js_mul _ _ = NaN"

text \<open>\<open>x > b\<close> for a finite \<open>b\<close>: every comparison with \<open>NaN\<close> is false.\<close>

fun js_gt :: "jsnum \<Rightarrow> rat \<Rightarrow> bool" where
  "js_gt (Fin a) b = (b < a)"
| "js_gt PosInf b = True"
| "js_gt NegInf b = False"
| "js_gt NaN b = False"

text \<open>\<open>Math.round\<close> rounds to the nearest integer, a tie towards plus infinity; \<open>Math.ceil\<close>
  rounds up. Both return a non-finite argument unchanged.\<close>

fun math_round :: "jsnum \<Rightarrow> int ext" where
  "math_round (Fin a) = Fin (round a)"
| "math_round PosInf = PosInf"
| "math_round NegInf = NegInf"
| "math_round NaN = NaN"

fun math_ceil :: "jsnum \<Rightarrow> int ext" where
  "math_ceil (Fin a) = Fin \<lceil>a\<rceil>"
| "math_ceil PosInf = PosInf"
| "math_ceil NegInf = NegInf"
| "math_ceil NaN = NaN"

subsection \<open>Numbers in template literals\<close>

definition digit_char :: "nat \<Rightarrow> char" where
  "digit_char d = ''0123456789'' ! d"

fun show_nat :: "nat \<Rightarrow> string" where
  "show_nat n = (if n < 10 then [digit_char n] else show_nat (n div 10) @ [digit_char (n mod 10)])"

declare show_nat.simps [simp del]

definition show_int :: "int \<Rightarrow> string" where
  "show_int i = (if i < 0 then CHR ''-'' # show_nat (nat (- i)) else show_nat (nat i))"

fun js_show :: "int ext \<Rightarrow> string" where
  "js_show (Fin i) = show_int i"
| "js_show PosInf = ''Infinity''"
| "js_show NegInf = ''-Infinity''"
| "js_show NaN = ''NaN''"

text \<open>\<open>x.toFixed(1)\<close>: the decimal with one fractional digit nearest to \<open>x\<close>, the larger
  one at a tie; a negative \<open>x\<close> is rendered as \<open>-\<close> followed by the rendering of \<open>-x\<close>.\<close>

definition fixed1 :: "rat \<Rightarrow> string" where
  "fixed1 x = (let n = nat \<lfloor>x * 10 + 1 / 2\<rfloor> in show_nat (n div 10) @ ''.'' @ show_nat (n mod 10))"

fun toFixed1 :: "jsnum \<Rightarrow> string" where
  "toFixed1 (Fin x) = (if x < 0 then ''-'' @ fixed1 (- x) else fixed1 x)"
| "toFixed1 PosInf = ''Infinity''"
| "toFixed1 NegInf = ''-Infinity''"
| "toFixed1 NaN = ''NaN''"

text \<open>\<open>x || d\<close>: \<open>undefined\<close> (an absent field), \<open>0\<close> and the empty string are falsy.\<close>

definition num_or :: "int option \<Rightarrow> int \<Rightarrow> int" where
  "num_or x d = (case x of None \<Rightarrow> d | Some n \<Rightarrow> if n = 0 then d else n)"

definition str_or :: "string option \<Rightarrow> string \<Rightarrow> string" where
  "str_or x d = (case x of None \<Rightarrow> d | Some s \<Rightarrow> if s = [] then d else s)"

text \<open>The separator \<open>" - "\<close> of the labels is written with an em dash (U+2014), here its
  three UTF-8 bytes between two spaces.\<close>

definition dash :: string where
  "dash = [CHR '' '', CHR 0xE2, CHR 0x80, CHR 0x94, CHR '' '']"

section \<open>Progress events\<close>

text \<open>A parsed WebSocket frame: an object with a \<open>type\<close> and the fields of its kind, each
  of which may be absent.\<close>

record ws_data =
  ev_type :: string
  tiles_done :: "int option"
  tiles_total :: "int option"
  pass_num :: "int option"
  total_passes :: "int option"
  model_id :: "string option"
  completed :: "int option"
  ev_total :: "int option"
  current_file :: "string option"
  downloaded :: "int option"
  success :: "bool option"
  error :: "string option"

section \<open>ProgressTracker.js: progressTracker\<close>

record progressTracker =
  progressPercent :: "int ext"
  progressLabel :: string
  startTime :: "int option"

definition progressTracker0 :: progressTracker where
  "progressTracker0 = \<lparr>progressPercent = Fin 0, progressLabel = ''Waiting...'', startTime = None\<rparr>"

text \<open>\<open>init\<close> at time \<open>now\<close> (\<open>Date.now()\<close>, in milliseconds).\<close>

definition tracker_init :: "int \<Rightarrow> progressTracker \<Rightarrow> progressTracker" where
  "tracker_init now s = s\<lparr>startTime := Some now\<rparr>"

text \<open>\<open>(Date.now() - this.startTime) / 1000\<close>; a \<open>null\<close> start time counts as \<open>0\<close>.\<close>

definition elapsed :: "int \<Rightarrow> progressTracker \<Rightarrow> jsnum" where
  "elapsed now s =
     js_div (Fin (of_int (now - (case startTime s of None \<Rightarrow> 0 | Some t \<Rightarrow> t)))) (Fin 1000)"

text \<open>The label of a \<open>tile_progress\<close> event before the estimate is appended.\<close>

definition tile_label :: "ws_data \<Rightarrow> string" where
  "tile_label d =
     (let done = num_or (tiles_done d) 0;
          total = num_or (tiles_total d) 1;
          passNum = num_or (pass_num d) 1;
          totalPasses = num_or (total_passes d) 1;
          label = ''Tiles: '' @ show_int done @ ''/'' @ show_int total
      in if 1 < totalPasses
         then ''Pass '' @ show_int passNum @ ''/'' @ show_int totalPasses @ dash @ label
         else label)"

text \<open>The estimate appended to the label, empty when none is shown.\<close>

definition eta_suffix :: "int \<Rightarrow> ws_data \<Rightarrow> progressTracker \<Rightarrow> string" where
  "eta_suffix now d s =
     (let done = num_or (tiles_done d) 0;
          total = num_or (tiles_total d) 1
      in if 0 < done \<and> js_gt (elapsed now s) 2
         then (let rate = js_div (Fin (of_int done)) (elapsed now s);
                   remaining = js_div (Fin (of_int (total - done))) rate
               in dash @ ''~'' @ js_show (math_ceil remaining) @ ''s remaining'')
         else [])"

definition tile_percent :: "ws_data \<Rightarrow> int ext" where
  "tile_percent d =
     (let done = num_or (tiles_done d) 0;
          total = num_or (tiles_total d) 1
      in math_round (js_mul (js_div (Fin (of_int done)) (Fin (of_int total))) (Fin 100)))"

definition on_tile_progress :: "int \<Rightarrow> ws_data \<Rightarrow> progressTracker \<Rightarrow> progressTracker" where
  "on_tile_progress now d s =
     s\<lparr>progressPercent := tile_percent d, progressLabel := tile_label d @ eta_suffix now d s\<rparr>"

definition on_model_loading :: "int \<Rightarrow> ws_data \<Rightarrow> progressTracker \<Rightarrow> progressTracker" where
  "on_model_loading now d s =
     s\<lparr>progressLabel := ''Loading model: '' @ str_or (model_id d) [] @ ''...'',
       progressPercent := Fin 0,
       startTime := Some now\<rparr>"

definition on_model_loaded :: "progressTracker \<Rightarrow> progressTracker" where
  "on_model_loaded s = s\<lparr>progressLabel := ''Model loaded, processing...''\<rparr>"

definition on_comparison_model_start :: "int \<Rightarrow> ws_data \<Rightarrow> progressTracker \<Rightarrow> progressTracker" where
  "on_comparison_model_start now d s =
     s\<lparr>progressLabel := ''Processing: '' @ str_or (model_id d) [] @ ''...'',
       progressPercent := Fin 0,
       startTime := Some now\<rparr>"

definition on_batch_progress :: "ws_data \<Rightarrow> progressTracker \<Rightarrow> progressTracker" where
  "on_batch_progress d s =
     (let completed = num_or (completed d) 0;
          total = num_or (ev_total d) 1;
          pct = math_round (js_mul (js_div (Fin (of_int completed)) (Fin (of_int total))) (Fin 100))
      in s\<lparr>progressPercent := pct,
           progressLabel := ''Batch: '' @ show_int completed @ ''/'' @ show_int total @ '' images'' @ dash
                            @ str_or (current_file d) []\<rparr>)"

definition on_download_progress :: "ws_data \<Rightarrow> progressTracker \<Rightarrow> progressTracker" where
  "on_download_progress d s =
     (let downloaded = num_or (downloaded d) 0;
          total = num_or (ev_total d) 1;
          pct = (if 0 < total
                 then math_round (js_mul (js_div (Fin (of_int downloaded)) (Fin (of_int total))) (Fin 100))
                 else Fin 0);
          mb = toFixed1 (js_div (js_div (Fin (of_int downloaded)) (Fin 1024)) (Fin 1024));
          totalMb = toFixed1 (js_div (js_div (Fin (of_int total)) (Fin 1024)) (Fin 1024))
      in s\<lparr>progressPercent := pct,
           progressLabel := ''Downloading: '' @ mb @ ''/'' @ totalMb @ '' MB''\<rparr>)"

definition on_image_complete :: "progressTracker \<Rightarrow> progressTracker" where
  "on_image_complete s = s\<lparr>progressPercent := Fin 100, progressLabel := ''Complete!''\<rparr>"

text \<open>\<open>handleWSEvent(data)\<close> of the tracker, run at time \<open>now\<close>: seven tests of
  \<open>data.type\<close> in the order of the source, each applied to the state the previous left.\<close>

definition tracker_handleWSEvent :: "int \<Rightarrow> ws_data \<Rightarrow> progressTracker \<Rightarrow> progressTracker" where
  "tracker_handleWSEvent now d s =
     (let s1 = (if ev_type d = ''tile_progress'' then on_tile_progress now d s else s);
          s2 = (if ev_type d = ''model_loading'' then on_model_loading now d s1 else s1);
          s3 = (if ev_type d = ''model_loaded'' then on_model_loaded s2 else s2);
          s4 = (if ev_type d = ''comparison_model_start'' then on_comparison_model_start now d s3 else s3);
          s5 = (if ev_type d = ''batch_progress'' then on_batch_progress d s4 else s4);
          s6 = (if ev_type d = ''download_progress'' then on_download_progress d s5 else s5)
      in if ev_type d = ''image_complete'' then on_image_complete s6 else s6)"

text \<open>The states after each event of a sequence; every event comes with the time at which
  the handler runs.\<close>

fun tracker_run :: "(int \<times> ws_data) list \<Rightarrow> progressTracker \<Rightarrow> progressTracker list" where
  "tracker_run [] s = []"
| "tracker_run ((now, d) # es) s =
     tracker_handleWSEvent now d s # tracker_run es (tracker_handleWSEvent now d s)"

text \<open>A \<open>tile_progress\<close> frame with \<open>n\<close> of \<open>t\<close> tiles done in pass \<open>p\<close> of \<open>pp\<close>.\<close>

definition tile_ev :: "int \<Rightarrow> int \<Rightarrow> int \<Rightarrow> int \<Rightarrow> ws_data" where
  "tile_ev n t p pp = \<lparr>ev_type = ''tile_progress'', tiles_done = Some n, tiles_total = Some t,
     pass_num = Some p, total_passes = Some pp, model_id = None, completed = None, ev_total = None,
     current_file = None, downloaded = None, success = None, error = None\<rparr>"

text \<open>A frame that carries only its \<open>type\<close>.\<close>

definition plain_ev :: "string \<Rightarrow> ws_data" where
  "plain_ev t = \<lparr>ev_type = t, tiles_done = None, tiles_total = None,
     pass_num = None, total_passes = None, model_id = None, completed = None, ev_total = None,
     current_file = None, downloaded = None, success = None, error = None\<rparr>"

text \<open>Finite numbers, and their order; a non-finite number is in no order relation.\<close>

fun is_fin :: "'a ext \<Rightarrow> bool" where
  "is_fin (Fin _) = True"
| "is_fin _ = False"

fun ext_le :: "int ext \<Rightarrow> int ext \<Rightarrow> bool" where
  "ext_le (Fin a) (Fin b) = (a \<le> b)"
| "ext_le _ _ = False"

text \<open>The tracker keeps no status field. Read off what it displays: it starts with
  \<open>Waiting...\<close>, and \<open>image_complete\<close> sets 100 percent and \<open>Complete!\<close>.\<close>

datatype job_status = Pending | Running | Completed | Failed

definition tracker_status :: "progressTracker \<Rightarrow> job_status" where
  "tracker_status s =
     (if progressLabel s = ''Complete!'' \<and> progressPercent s = Fin 100 then Completed
      else if progressLabel s = ''Waiting...'' then Pending
      else Running)"

section \<open>What the client asks of the browser\<close>

text \<open>The detail of a \<open>CustomEvent\<close> dispatched on \<open>window\<close>, one constructor per event name.\<close>

record comparison_detail =
  modelId :: string
  imageId :: "string option"
  imageUrl :: "string option"
  duration :: rat
  detail_success :: bool
  detail_error :: "string option"

datatype custom_event =
    WsEvent ws_data
  | ComparisonModelDone ws_data
  | Toast string string
  | ResultReady string
  | ComparisonStart string string "string list"
  | ComparisonResult comparison_detail

datatype callback = Ping | Reconnect | PollComparison string | PollJob string

datatype effect =
    Fetch string string "(string \<times> string) list"
  | Dispatch custom_event
  | SetTimeout callback nat
  | ClearTimeout nat
  | SetInterval callback nat
  | ClearInterval "nat option"
  | NewWebSocket
  | SocketSend string
  | SocketClose
  | Console string

text \<open>The outcome of \<open>fetch\<close> followed by \<open>res.json()\<close> inside a \<open>try\<close>: the parsed body, or
  an exception (the request failed, or the body was not the JSON the code reads).\<close>

datatype 'a fetched = FetchError | Fetched 'a

text \<open>The outcome of a submission: an exception with its message, a response whose \<open>ok\<close> is
  false with the \<open>detail\<close> of its body, or the data of a successful response.\<close>

datatype 'a response = Rejected string | NotOk "string option" | Ok 'a

fun is_fetch :: "effect \<Rightarrow> bool" where
  "is_fetch (Fetch m u b) = True"
| "is_fetch _ = False"

fun timeout_ms :: "effect \<Rightarrow> nat option" where
  "timeout_ms (SetTimeout c ms) = Some ms"
| "timeout_ms _ = None"

text \<open>The delays of the timeouts set in a trace, in order, and whether a step set one.\<close>

definition delays :: "effect list \<Rightarrow> nat list" where
  "delays es = List.map_filter timeout_ms es"

definition reschedules :: "effect list \<Rightarrow> bool" where
  "reschedules es = (delays es \<noteq> [])"

definition fetches :: "effect list \<Rightarrow> nat" where
  "fetches es = length (filter is_fetch es)"

fun is_toast :: "effect \<Rightarrow> bool" where
  "is_toast (Dispatch (Toast m t)) = True"
| "is_toast _ = False"

section \<open>ProgressTracker.js: batchPanel\<close>

record batchPanel =
  batchInputDir :: string
  batchOutputDir :: string
  batchModel :: string
  batchScale :: int
  batchRecursive :: bool
  batchSkipExisting :: bool
  batchRunning :: bool
  batchStatus :: string
  batchJobId :: "string option"

definition batchPanel0 :: batchPanel where
  "batchPanel0 = \<lparr>batchInputDir = [], batchOutputDir = [], batchModel = [], batchScale = 4,
     batchRecursive = False, batchSkipExisting = False, batchRunning = False, batchStatus = [],
     batchJobId = None\<rparr>"

text \<open>The body of \<open>GET /api/jobs/<id>\<close>.\<close>

record batch_result =
  result_completed :: "int option"
  result_skipped :: "int option"
  result_failed :: "int option"

record job_snapshot =
  status :: string
  results :: "batch_result list option"
  job_error :: "string option"

text \<open>A field in a template literal; an absent one reads \<open>undefined\<close>.\<close>

definition show_field :: "int option \<Rightarrow> string" where
  "show_field x = (case x of None \<Rightarrow> ''undefined'' | Some n \<Rightarrow> show_int n)"

definition show_bool :: "bool \<Rightarrow> string" where
  "show_bool b = (if b then ''true'' else ''false'')"

text \<open>\<open>data.results && data.results[0]\<close>.\<close>

definition first_result :: "job_snapshot \<Rightarrow> batch_result option" where
  "first_result data = (case results data of None \<Rightarrow> None | Some [] \<Rightarrow> None | Some (r # rs) \<Rightarrow> Some r)"

definition complete_status :: "batch_result \<Rightarrow> string" where
  "complete_status r = ''Complete: '' @ show_field (result_completed r) @ '' processed, ''
     @ show_field (result_skipped r) @ '' skipped, '' @ show_field (result_failed r) @ '' failed''"

text \<open>One run of the closure \<open>poll\<close> of \<open>pollJob(jobId)\<close>, given the outcome of its fetch.\<close>

definition pollJob_poll :: "string \<Rightarrow> job_snapshot fetched \<Rightarrow> batchPanel \<Rightarrow> batchPanel \<times> effect list" where
  "pollJob_poll jobId f s =
     (let req = Fetch ''GET'' (''/api/jobs/'' @ jobId) []
      in case f of
           FetchError \<Rightarrow> (s, [req, SetTimeout (PollJob jobId) 3000])
         | Fetched data \<Rightarrow>
             if status data = ''completed'' then
               (s\<lparr>batchRunning := False,
                  batchStatus := (case first_result data of
                                    Some r \<Rightarrow> complete_status r
                                  | None \<Rightarrow> ''Batch complete'')\<rparr>,
                [req, Dispatch (Toast ''Batch processing complete'' ''success'')])
             else if status data = ''failed'' then
               (s\<lparr>batchRunning := False,
                  batchStatus := ''Failed: '' @ str_or (job_error data) ''Unknown error''\<rparr>,
                [req])
             else (s, [req, SetTimeout (PollJob jobId) 2000]))"

text \<open>The loop that the timeouts drive. \<open>fs\<close> lists the outcomes of the fetches to come; an
  outcome is used only while a run of \<open>poll\<close> has set the next timeout, and the trace records
  every call made.\<close>

fun pollJob_loop :: "string \<Rightarrow> job_snapshot fetched list \<Rightarrow> batchPanel \<Rightarrow> batchPanel \<times> effect list" where
  "pollJob_loop jobId [] s = (s, [])"
| "pollJob_loop jobId (f # fs) s =
     (let (s1, es) = pollJob_poll jobId f s
      in if reschedules es
         then (let (s2, es2) = pollJob_loop jobId fs s1 in (s2, es @ es2))
         else (s1, es))"

definition pollJob :: "string \<Rightarrow> job_snapshot fetched list \<Rightarrow> batchPanel \<Rightarrow> batchPanel \<times> effect list" where
  "pollJob jobId fs s =
     (let (s1, es) = pollJob_loop jobId fs s in (s1, SetTimeout (PollJob jobId) 1000 # es))"

text \<open>\<open>startBatch\<close>, given the outcome of its request (the job id on success) and the
  outcomes of the polls that follow.\<close>

definition startBatch :: "string response \<Rightarrow> job_snapshot fetched list \<Rightarrow> batchPanel \<Rightarrow> batchPanel \<times> effect list" where
  "startBatch resp fs s =
     (if batchInputDir s = [] \<or> batchModel s = [] then (s, [])
      else
        (let s1 = s\<lparr>batchRunning := True, batchStatus := []\<rparr>;
             req = Fetch ''POST'' ''/api/upscale/batch''
                     [(''input_dir'', batchInputDir s), (''output_dir'', batchOutputDir s),
                      (''model_id'', batchModel s), (''scale'', show_int (batchScale s)),
                      (''recursive'', show_bool (batchRecursive s)),
                      (''skip_existing'', show_bool (batchSkipExisting s))]
         in case resp of
              Ok job_id \<Rightarrow>
                (let (s2, es) = pollJob job_id fs (s1\<lparr>batchJobId := Some job_id\<rparr>) in (s2, req # es))
            | NotOk detail \<Rightarrow>
                (s1\<lparr>batchRunning := False\<rparr>, [req, Dispatch (Toast ''Batch start failed'' ''error'')])
            | Rejected msg \<Rightarrow>
                (s1\<lparr>batchRunning := False\<rparr>, [req, Dispatch (Toast msg ''error'')])))"

text \<open>The status of the batch job as the panel shows it.\<close>

definition batch_status :: "batchPanel \<Rightarrow> job_status" where
  "batch_status s =
     (if batchRunning s then Running
      else if batchStatus s = [] then Pending
      else if prefix ''Failed: '' (batchStatus s) then Failed
      else Completed)"

section \<open>app.js: app\<close>

record model =
  model_name :: string
  is_loaded :: bool

text \<open>The data of \<open>app()\<close>, with \<open>_pingInterval\<close> as \<open>pingInterval\<close> and the list of the
  \<open>models\<close> store as \<open>models_list\<close>. A file and a socket are known by a name and a number.\<close>

record app =
  tab :: string
  showSettings :: bool
  uploadedFile :: "string option"
  selectedModel :: string
  upscaleScale :: int
  outputFormat :: string
  isProcessing :: bool
  resultUrl :: "string option"
  loadedModelCount :: nat
  compareModels :: "string list"
  compareScale :: int
  isComparing :: bool
  comparisonId :: "string option"
  ws :: "nat option"
  wsReconnectTimer :: "nat option"
  pingInterval :: "nat option"
  models_list :: "model list"

definition app0 :: app where
  "app0 = \<lparr>tab = ''models'', showSettings = False, uploadedFile = None, selectedModel = [],
     upscaleScale = 4, outputFormat = ''png'', isProcessing = False, resultUrl = None,
     loadedModelCount = 0, compareModels = [], compareScale = 4, isComparing = False,
     comparisonId = None, ws = None, wsReconnectTimer = None, pingInterval = None,
     models_list = []\<rparr>"

definition updateLoadedCount :: "app \<Rightarrow> app" where
  "updateLoadedCount s = s\<lparr>loadedModelCount := length (filter is_loaded (models_list s))\<rparr>"

definition toast :: "string \<Rightarrow> string \<Rightarrow> effect" where
  "toast msg type = Dispatch (Toast msg type)"

text \<open>\<open>handleWSEvent(data)\<close> of the app. The refresh of the store is a request whose answer
  arrives later, so the count is taken from the list as it is.\<close>

definition app_handleWSEvent :: "ws_data \<Rightarrow> app \<Rightarrow> app \<times> effect list" where
  "app_handleWSEvent d s =
     (let loading = (ev_type d = ''model_loaded'' \<or> ev_type d = ''model_loading'')
      in (if loading then updateLoadedCount s else s,
          [Dispatch (WsEvent d)]
          @ (if loading then [Fetch ''GET'' ''/api/models'' []] else [])
          @ (if ev_type d = ''comparison_model_done'' \<and> success d = Some True
             then [Dispatch (ComparisonModelDone d)] else [])
          @ (if ev_type d = ''image_complete'' then [toast ''Image processing complete'' ''success''] else [])
          @ (if ev_type d = ''image_error''
             then [toast (''Error: '' @ str_or (error d) ''Processing failed'') ''error''] else [])))"

subsection \<open>The WebSocket\<close>

















subsection \<open>Upscale\<close>

definition startUpscale :: "string response \<Rightarrow> app \<Rightarrow> app \<times> effect list" where
  "startUpscale resp s =
     (case uploadedFile s of
        None \<Rightarrow> (s, [])
      | Some file \<Rightarrow>
          if selectedModel s = [] then (s, [])
          else
            (let s1 = s\<lparr>isProcessing := True, resultUrl := None\<rparr>;
                 req = Fetch ''POST'' ''/api/upscale''
                         [(''file'', file), (''model_id'', selectedModel s),
                          (''scale'', show_int (upscaleScale s)), (''output_format'', outputFormat s)]
             in case resp of
                  Ok url \<Rightarrow>
                    (s1\<lparr>resultUrl := Some url, isProcessing := False\<rparr>, [req, Dispatch (ResultReady url)])
                | NotOk detail \<Rightarrow>
                    (s1\<lparr>isProcessing := False\<rparr>, [req, toast (str_or detail ''Upscale failed'') ''error''])
                | Rejected msg \<Rightarrow>
                    (s1\<lparr>isProcessing := False\<rparr>, [req, toast msg ''error''])))"

subsection \<open>Compare\<close>

text \<open>One entry of the results of \<open>GET /api/compare/<id>\<close>.\<close>

record comparison_result =
  result_model_id :: string
  result_image_id :: "string option"
  duration_seconds :: rat
  result_success :: bool
  result_error :: "string option"

text \<open>The variables the closure \<open>poll\<close> of \<open>pollComparison\<close> captures. The \<open>Set\<close> is the
  list of its members in the order they were added.\<close>

record comparison_poll =
  expectedCount :: nat
  seen :: "string list"

definition result_detail :: "comparison_result \<Rightarrow> comparison_detail" where
  "result_detail r =
     \<lparr>modelId = result_model_id r,
      imageId = result_image_id r,
      imageUrl = (case result_image_id r of
                    None \<Rightarrow> None
                  | Some i \<Rightarrow> if i = [] then None else Some (''/api/images/'' @ i)),
      duration = duration_seconds r,
      detail_success = result_success r,
      detail_error = result_error r\<rparr>"

text \<open>The body of the \<open>for\<close> loop over \<open>data.results\<close>, on the set and the events dispatched
  so far.\<close>

definition forward_result :: "comparison_result \<Rightarrow> string list \<times> effect list \<Rightarrow> string list \<times> effect list" where
  "forward_result r acc =
     (case acc of (sn, es) \<Rightarrow>
        if result_model_id r \<in> set sn then (sn, es)
        else (sn @ [result_model_id r], es @ [Dispatch (ComparisonResult (result_detail r))]))"

text \<open>One run of the closure \<open>poll\<close> of \<open>pollComparison(comparisonId)\<close>, given the outcome of
  its fetch.\<close>

definition pollComparison_poll ::
  "string \<Rightarrow> comparison_result list fetched \<Rightarrow> app \<times> comparison_poll \<Rightarrow> (app \<times> comparison_poll) \<times> effect list" where
  "pollComparison_poll cid f st =
     (case st of (s, c) \<Rightarrow>
        (let req = Fetch ''GET'' (''/api/compare/'' @ cid) []
         in case f of
              FetchError \<Rightarrow> ((s, c), [req, SetTimeout (PollComparison cid) 2000])
            | Fetched rs \<Rightarrow>
                (case fold forward_result rs (seen c, []) of (sn, es) \<Rightarrow>
                   if length sn < expectedCount c
                   then ((s, c\<lparr>seen := sn\<rparr>), req # es @ [SetTimeout (PollComparison cid) 1500])
                   else ((s\<lparr>isComparing := False\<rparr>, c\<lparr>seen := sn\<rparr>),
                         req # es @ [toast ''Comparison complete'' ''success'']))))"

text \<open>What reaches the client while a comparison runs: a frame on the socket, or the firing
  of the poll timeout with the outcome of its fetch. The third component of the state tells
  whether a poll timeout is pending; when none is, no fetch is made.\<close>

datatype comparison_input = Push ws_data | Poll "comparison_result list fetched"

fun comparison_run ::
  "string \<Rightarrow> comparison_input list \<Rightarrow> app \<times> comparison_poll \<times> bool \<Rightarrow> (app \<times> comparison_poll \<times> bool) \<times> effect list" where
  "comparison_run cid [] st = (st, [])"
| "comparison_run cid (Push d # ins) (s, c, pending) =
     (let (s1, es) = app_handleWSEvent d s;
          (st2, es2) = comparison_run cid ins (s1, c, pending)
      in (st2, es @ es2))"
| "comparison_run cid (Poll f # ins) (s, c, pending) =
     (if pending
      then (let ((s1, c1), es) = pollComparison_poll cid f (s, c);
                (st2, es2) = comparison_run cid ins (s1, c1, reschedules es)
            in (st2, es @ es2))
      else comparison_run cid ins (s, c, pending))"

definition pollComparison ::
  "string \<Rightarrow> comparison_input list \<Rightarrow> app \<Rightarrow> (app \<times> comparison_poll \<times> bool) \<times> effect list" where
  "pollComparison cid ins s =
     (let (st, es) = comparison_run cid ins (s, \<lparr>expectedCount = length (compareModels s), seen = []\<rparr>, True)
      in (st, SetTimeout (PollComparison cid) 2000 # es))"

text \<open>The body of a successful \<open>POST /api/compare\<close>.\<close>

record comparison_started =
  comparison_id :: string
  input_image_id :: string

fun join :: "string list \<Rightarrow> string" where
  "join [] = []"
| "join [x] = x"
| "join (x # y # ys) = x @ '','' @ join (y # ys)"

definition startComparison ::
  "comparison_started response \<Rightarrow> comparison_input list \<Rightarrow> app \<Rightarrow> (app \<times> (comparison_poll \<times> bool) option) \<times> effect list" where
  "startComparison resp ins s =
     (case uploadedFile s of
        None \<Rightarrow> ((s, None), [])
      | Some file \<Rightarrow>
          if length (compareModels s) = 0 then ((s, None), [])
          else
            (let s1 = s\<lparr>isComparing := True\<rparr>;
                 req = Fetch ''POST'' ''/api/compare''
                         [(''file'', file), (''model_ids'', join (compareModels s)),
                          (''scale'', show_int (compareScale s)), (''output_format'', outputFormat s)]
             in case resp of
                  Ok data \<Rightarrow>
                    (let s2 = s1\<lparr>comparisonId := Some (comparison_id data)\<rparr>;
                         start = Dispatch (ComparisonStart (comparison_id data)
                                   (''/api/images/'' @ input_image_id data) (compareModels s));
                         ((s3, c, pending), es) = pollComparison (comparison_id data) ins s2
                     in ((s3, Some (c, pending)), req # start # es))
                | NotOk detail \<Rightarrow>
                    ((s1\<lparr>isComparing := False\<rparr>, None), [req, toast (str_or detail ''Comparison failed'') ''error''])
                | Rejected msg \<Rightarrow>
                    ((s1\<lparr>isComparing := False\<rparr>, None), [req, toast msg ''error''])))"

text \<open>The completion notifications for model \<open>m\<close> in a trace: the \<open>comparison-model-done\<close>
  and the \<open>comparison-result\<close> events that name it.\<close>

fun completion_of :: "string \<Rightarrow> effect \<Rightarrow> bool" where
  "completion_of m (Dispatch (ComparisonModelDone d)) = (model_id d = Some m)"
| "completion_of m (Dispatch (ComparisonResult r)) = (modelId r = m)"
| "completion_of m _ = False"

fun result_of :: "string \<Rightarrow> effect \<Rightarrow> bool" where
  "result_of m (Dispatch (ComparisonResult r)) = (modelId r = m)"
| "result_of m _ = False"


definition complete_toast :: effect where
  "complete_toast = Dispatch (Toast ''Comparison complete'' ''success'')"



text \<open>The model ids of the \<open>comparison-result\<close> events of a trace, in order.\<close>

fun forwarded_id :: "effect \<Rightarrow> string option" where
  "forwarded_id (Dispatch (ComparisonResult r)) = Some (modelId r)"
| "forwarded_id _ = None"

definition forwarded :: "effect list \<Rightarrow> string list" where
  "forwarded es = List.map_filter forwarded_id es"

section \<open>Inputs used in the examples\<close>


definition result_for :: "string \<Rightarrow> comparison_result" where
  "result_for m = \<lparr>result_model_id = m, result_image_id = Some (''img-'' @ m),
     duration_seconds = 3 / 2, result_success = True, result_error = None\<rparr>"

definition snapshot :: "string \<Rightarrow> int \<Rightarrow> int \<Rightarrow> int \<Rightarrow> job_snapshot" where
  "snapshot st c k f = \<lparr>status = st,
     results = Some [\<lparr>result_completed = Some c, result_skipped = Some k, result_failed = Some f\<rparr>],
     job_error = None\<rparr>"

text \<open>A batch panel whose job was started, and an app whose comparison of three models was
  started.\<close>

definition running_batch :: batchPanel where
  "running_batch = batchPanel0\<lparr>batchInputDir := ''in'', batchModel := ''m'', batchRunning := True\<rparr>"

definition comparing_app :: app where
  "comparing_app = app0\<lparr>uploadedFile := Some ''photo.png'', compareModels := [''A'', ''B'', ''C''],
     isComparing := True\<rparr>"


section \<open>Rendering of numbers\<close>

lemma digit_char_in: "d < 10 \<Longrightarrow> digit_char d \<in> set ''0123456789''"
  unfolding digit_char_def
  by (auto simp: less_Suc_eq numeral_eq_Suc nth_Cons')

lemma show_nat_digits: "set (show_nat n) \<subseteq> set ''0123456789''"
proof (induction n rule: show_nat.induct)
  case (1 n)
  show ?case
  proof (cases "n < 10")
    case True
    then show ?thesis using digit_char_in [of n] by (subst show_nat.simps) simp
  next
    case False
    have "n mod 10 < 10" by simp
    then have "digit_char (n mod 10) \<in> set ''0123456789''" by (rule digit_char_in)
    with 1 False show ?thesis by (subst show_nat.simps) auto
  qed
qed

lemma show_nat_nonempty: "show_nat n \<noteq> []"
  by (subst show_nat.simps) simp

lemma show_int_nonempty: "show_int i \<noteq> []"
  by (simp add: show_int_def show_nat_nonempty)

lemma last_show_int: "last (show_int i) \<in> set ''0123456789''"
proof -
  have "last (show_nat n) \<in> set ''0123456789''" for n
    using show_nat_digits [of n] show_nat_nonempty [of n] last_in_set by blast
  then show ?thesis
    by (simp add: show_int_def show_nat_nonempty)
qed

lemma last_tile_label: "last (tile_label d) \<in> set ''0123456789''"
  using last_show_int [of "num_or (tiles_total d) 1"]
  by (simp add: tile_label_def Let_def show_int_nonempty)

lemma tile_label_no_eta: "\<not> suffix ''remaining'' (tile_label d)"
proof
  assume "suffix ''remaining'' (tile_label d)"
  then obtain zs where "tile_label d = zs @ ''remaining''" by (auto simp: suffix_def)
  then have "last (tile_label d) = CHR ''g''" by simp
  with last_tile_label [of d] show False by simp
qed


section \<open>Properties of the rounding\<close>

lemma bit_length_bounds:
  "0 < n \<Longrightarrow> 2 ^ (bit_length n - 1) \<le> n \<and> n < 2 ^ bit_length n"
proof (induction n rule: bit_length.induct)
  case (1 n)
  show ?case
  proof (cases "n div 2 = 0")
    case True
    with "1.prems" have "n = 1" by (simp add: div_eq_0_iff) 
    then show ?thesis by (simp add: bit_length.simps)
  next
    case False
    then have pos: "0 < n div 2" by simp
    from "1.IH" [OF _ pos] "1.prems"
    have ih: "2 ^ (bit_length (n div 2) - 1) \<le> n div 2" "n div 2 < 2 ^ bit_length (n div 2)"
      by simp_all
    have bl: "bit_length n = Suc (bit_length (n div 2))"
      using "1.prems" by (subst bit_length.simps) simp
    have bpos: "0 < bit_length (n div 2)"
      using pos by (subst bit_length.simps) simp
    have "2 ^ (bit_length n - 1) = 2 * 2 ^ (bit_length (n div 2) - 1)"
      unfolding bl using bpos by (cases "bit_length (n div 2)") simp_all
    also have "\<dots> \<le> 2 * (n div 2)" using ih(1) by simp
    also have "\<dots> \<le> n" by simp
    finally have a: "2 ^ (bit_length n - 1) \<le> n" .
    have "n < 2 * (n div 2) + 2" by presburger
    also have "\<dots> \<le> 2 * 2 ^ bit_length (n div 2)" using ih(2) by simp
    finally have b: "n < 2 ^ bit_length n" unfolding bl by simp
    from a b show ?thesis by simp
  qed
qed

lemma bit_length_pos: "0 < n \<Longrightarrow> 0 < bit_length n"
  by (subst bit_length.simps) simp

lemma ilog2_bounds:
  assumes "0 < x"
  shows "2 powi (ilog2 x) \<le> x \<and> x < 2 powi (ilog2 x + 1)"
proof (cases "1 \<le> x")
  case True
  define n where "n = nat \<lfloor>x\<rfloor>"
  have n1: "0 < n" using True by (simp add: n_def)
  have fl: "of_nat n \<le> x" "x < of_nat n + 1"
    using True floor_correct [of x] unfolding n_def by simp_all
  define k where "k = bit_length n"
  have kpos: "0 < k" unfolding k_def by (rule bit_length_pos [OF n1])
  have b: "2 ^ (k - 1) \<le> n" "n < 2 ^ k"
    using bit_length_bounds [OF n1] by (simp_all add: k_def)
  have il: "ilog2 x = int k - 1" using True by (simp add: ilog2_def n_def k_def)
  have e1: "(2::rat) powi (int k - 1) = 2 ^ (k - 1)"
    using kpos by (simp add: power_int_def nat_diff_distrib' of_nat_diff) 
  have e2: "(2::rat) powi (int k - 1 + 1) = 2 ^ k" by simp
  have "(of_nat (2 ^ (k - 1)) :: rat) \<le> of_nat n" using b(1) by (simp only: of_nat_le_iff)
  then have "(2::rat) ^ (k - 1) \<le> of_nat n" by simp
  then have lo: "(2::rat) ^ (k - 1) \<le> x" using fl(1) by linarith
  have "n + 1 \<le> 2 ^ k" using b(2) by simp
  then have "(of_nat (n + 1) :: rat) \<le> of_nat (2 ^ k)" by (simp only: of_nat_le_iff)
  then have "(of_nat n :: rat) + 1 \<le> 2 ^ k" by simp
  then have hi: "x < 2 ^ k" using fl(2) by linarith
  show ?thesis unfolding il e1 e2 using lo hi by simp
next
  case False
  then have x1: "x < 1" by simp
  define y where "y = 1 / x"
  have y1: "1 < y" using assms x1 by (simp add: y_def)
  define m where "m = nat (\<lceil>y\<rceil> - 1)"
  have c2: "2 \<le> \<lceil>y\<rceil>" using y1 by (simp add: le_ceiling_iff) 
  have m1: "0 < m" using c2 by (simp add: m_def)
  have my: "of_nat m < y" "y \<le> of_nat m + 1"
  proof -
    have "of_nat m = (of_int (\<lceil>y\<rceil> - 1) :: rat)" using c2 by (simp add: m_def)
    then show "of_nat m < y" "y \<le> of_nat m + 1"
      using ceiling_correct [of y] by simp_all
  qed
  define k where "k = bit_length m"
  have kpos: "0 < k" unfolding k_def by (rule bit_length_pos [OF m1])
  have b: "2 ^ (k - 1) \<le> m" "m < 2 ^ k"
    using bit_length_bounds [OF m1] by (simp_all add: k_def)
  have il: "ilog2 x = - int k" using False by (simp add: ilog2_def m_def k_def y_def)
  have e1: "(2::rat) powi (- int k) = 1 / 2 ^ k"
    unfolding power_int_minus_divide power_int_of_nat by (rule refl)
  have e2: "(2::rat) powi (- int k + 1) = 1 / 2 ^ (k - 1)"
  proof -
    have eq: "- int k + 1 = - int (k - 1)" using kpos by simp
    show ?thesis unfolding eq power_int_minus_divide power_int_of_nat by (rule refl)
  qed
  have "m + 1 \<le> 2 ^ k" using b(2) by simp
  then have "(of_nat (m + 1) :: rat) \<le> of_nat (2 ^ k)" by (simp only: of_nat_le_iff)
  then have "(of_nat m :: rat) + 1 \<le> 2 ^ k" by simp
  then have yk: "y \<le> 2 ^ k" using my(2) by linarith
  have "(of_nat (2 ^ (k - 1)) :: rat) \<le> of_nat m" using b(1) by (simp only: of_nat_le_iff)
  then have "(2::rat) ^ (k - 1) \<le> of_nat m" by simp
  then have ky: "(2::rat) ^ (k - 1) < y" using my(1) by linarith
  have xy: "x = 1 / y" using assms by (simp add: y_def)
  have lo: "1 / 2 ^ k \<le> x" unfolding xy using yk y1 by (simp add: frac_le)
  have hi: "x < 1 / 2 ^ (k - 1)" unfolding xy using ky by (simp add: frac_less2)
  show ?thesis unfolding il e1 e2 using lo hi by simp
qed

lemma round_even_of_int: "round_even (of_int n) = n"
  by (simp add: round_even_def)

lemma round_even_cases: "round_even t = \<lfloor>t\<rfloor> \<or> round_even t = \<lfloor>t\<rfloor> + 1"
  by (simp add: round_even_def Let_def)

lemma round_even_mono:
  assumes "t \<le> u"
  shows "round_even t \<le> round_even u"
proof (cases "\<lfloor>t\<rfloor> = \<lfloor>u\<rfloor>")
  case False
  then have "\<lfloor>t\<rfloor> < \<lfloor>u\<rfloor>" using floor_mono [OF assms] by simp
  then show ?thesis
    using round_even_cases [of t] round_even_cases [of u] by linarith
next
  case True
  have "t - of_int \<lfloor>t\<rfloor> \<le> u - of_int \<lfloor>t\<rfloor>" using assms by simp
  then show ?thesis
    unfolding round_even_def Let_def True [symmetric]
    by (simp split: if_splits)
qed

lemma zero_less_two_powi: "(0::rat) < 2 powi e"
  by (simp add: zero_less_power_int)

lemma two_powi_split: "(2::rat) powi (e + int n) = 2 ^ n * 2 powi e"
  using power_int_add [of "2::rat" e "int n"] by (simp add: mult.commute)

lemma two_powi_52: "(2::rat) powi e = 2 ^ 52 * 2 powi (e - 52)"
  using two_powi_split [of "e - 52" 52] by simp

lemma two_powi_53: "(2::rat) powi (e + 1) = 2 ^ 53 * 2 powi (e - 52)"
proof -
  have "e + 1 = e - 52 + int 53" by simp
  then show ?thesis using two_powi_split [of "e - 52" 53] by (simp only:)
qed

lemma scaled_bounds:
  assumes "0 < x"
  shows "2 ^ 52 \<le> x / 2 powi (ilog2 x - 52) \<and> x / 2 powi (ilog2 x - 52) < 2 ^ 53"
proof -
  note b = ilog2_bounds [OF assms]
  have p: "(0::rat) < 2 powi (ilog2 x - 52)" by (rule zero_less_two_powi)
  have e1: "(2::rat) powi (ilog2 x) = 2 ^ 52 * 2 powi (ilog2 x - 52)" by (rule two_powi_52)
  have e2: "(2::rat) powi (ilog2 x + 1) = 2 ^ 53 * 2 powi (ilog2 x - 52)" by (rule two_powi_53)
  have lo: "2 ^ 52 * 2 powi (ilog2 x - 52) \<le> x" using b e1 by simp
  have hi: "x < 2 ^ 53 * 2 powi (ilog2 x - 52)" using b e2 by simp
  show ?thesis using lo hi p by (simp add: pos_le_divide_eq pos_divide_less_eq)
qed

lemma double_pos_bounds:
  assumes "0 < x"
  shows "2 powi (ilog2 x) \<le> double_pos x \<and> double_pos x \<le> 2 powi (ilog2 x + 1)"
proof -
  let ?e = "ilog2 x - 52"
  let ?t = "x / 2 powi ?e"
  note s = scaled_bounds [OF assms]
  have "round_even (of_int (2 ^ 52)) \<le> round_even ?t"
    by (rule round_even_mono) (use s in simp)
  then have lo: "2 ^ 52 \<le> round_even ?t" by (simp only: round_even_of_int)
  have "round_even ?t \<le> round_even (of_int (2 ^ 53))"
    by (rule round_even_mono) (use s in simp)
  then have hi: "round_even ?t \<le> 2 ^ 53" by (simp only: round_even_of_int)
  have p: "(0::rat) < 2 powi ?e" by (rule zero_less_two_powi)
  have e1: "(2::rat) powi (ilog2 x) = 2 ^ 52 * 2 powi ?e" by (rule two_powi_52)
  have e2: "(2::rat) powi (ilog2 x + 1) = 2 ^ 53 * 2 powi ?e" by (rule two_powi_53)
  have lo': "(2 ^ 52 :: rat) \<le> of_int (round_even ?t)"
    using lo by (metis of_int_le_iff of_int_numeral of_int_power)
  have hi': "(of_int (round_even ?t) :: rat) \<le> 2 ^ 53"
    using hi by (metis of_int_le_iff of_int_numeral of_int_power)
  have a: "(2 ^ 52 :: rat) * 2 powi ?e \<le> of_int (round_even ?t) * 2 powi ?e"
    using lo' p by (intro mult_right_mono) simp_all
  have b: "(of_int (round_even ?t) :: rat) * 2 powi ?e \<le> 2 ^ 53 * 2 powi ?e"
    using hi' p by (intro mult_right_mono) simp_all
  show ?thesis unfolding double_pos_def e1 e2 using a b by simp
qed

lemma ilog2_mono:
  assumes "0 < x" "x \<le> y"
  shows "ilog2 x \<le> ilog2 y"
proof (rule ccontr)
  assume "\<not> ilog2 x \<le> ilog2 y"
  then have "ilog2 y + 1 \<le> ilog2 x" by simp
  then have "(2::rat) powi (ilog2 y + 1) \<le> 2 powi (ilog2 x)"
    by (intro power_int_increasing) simp_all
  moreover have "2 powi (ilog2 x) \<le> x" using ilog2_bounds [OF assms(1)] by simp
  moreover have "y < 2 powi (ilog2 y + 1)" using ilog2_bounds [of y] assms by simp
  ultimately show False using assms(2) by linarith
qed

lemma double_pos_mono:
  assumes "0 < x" "x \<le> y"
  shows "double_pos x \<le> double_pos y"
proof (cases "ilog2 x = ilog2 y")
  case True
  have p: "(0::rat) < 2 powi (ilog2 y - 52)" by (rule zero_less_two_powi)
  have "x / 2 powi (ilog2 y - 52) \<le> y / 2 powi (ilog2 y - 52)"
    using assms(2) p by (simp add: divide_right_mono)
  then have "round_even (x / 2 powi (ilog2 y - 52)) \<le> round_even (y / 2 powi (ilog2 y - 52))"
    by (rule round_even_mono)
  then have "(of_int (round_even (x / 2 powi (ilog2 y - 52))) :: rat)
               \<le> of_int (round_even (y / 2 powi (ilog2 y - 52)))" by simp
  then show ?thesis unfolding double_pos_def True using p by (intro mult_right_mono) simp_all
next
  case False
  have ypos: "0 < y" using assms by simp
  have "ilog2 x + 1 \<le> ilog2 y" using False ilog2_mono [OF assms] by simp
  then have "(2::rat) powi (ilog2 x + 1) \<le> 2 powi (ilog2 y)"
    by (intro power_int_increasing) simp_all
  then show ?thesis
    using double_pos_bounds [OF assms(1)] double_pos_bounds [OF ypos] by linarith
qed

lemma double_pos_pos: "0 < x \<Longrightarrow> 0 < double_pos x"
  using double_pos_bounds [of x] zero_less_two_powi [of "ilog2 x"] by linarith

lemma double_zero: "double 0 = 0"
  by (simp add: double_def)

lemma double_pos_iff: "0 < double x \<longleftrightarrow> 0 < x"
proof (cases "x = 0")
  case True then show ?thesis by (simp add: double_def)
next
  case False
  show ?thesis
  proof (cases "0 < x")
    case True then show ?thesis using double_pos_pos [of x] by (simp add: double_def)
  next
    case neg: False
    then have "0 < - x" using False by simp
    then have "0 < double_pos (- x)" by (rule double_pos_pos)
    then show ?thesis using neg False by (simp add: double_def)
  qed
qed

lemma double_mono:
  assumes "x \<le> y"
  shows "double x \<le> double y"
proof -
  consider "0 < x" | "x \<le> 0" "0 \<le> y" | "y < 0" by linarith
  then show ?thesis
  proof cases
    case 1
    then have "0 < y" using assms by simp
    then show ?thesis using 1 double_pos_mono [OF 1 assms] by (simp add: double_def)
  next
    case 2
    have "double x \<le> 0"
      using 2(1) double_pos_pos [of "- x"] by (auto simp: double_def)
    moreover have "0 \<le> double y"
      using 2(2) double_pos_pos [of y] by (auto simp: double_def)
    ultimately show ?thesis by simp
  next
    case 3
    then have x: "x < 0" using assms by simp
    have "double_pos (- y) \<le> double_pos (- x)"
      using 3 assms by (intro double_pos_mono) simp_all
    then show ?thesis using 3 x by (simp add: double_def)
  qed
qed

lemma double_ne_zero: "x \<noteq> 0 \<Longrightarrow> double x \<noteq> 0"
proof -
  assume "x \<noteq> 0"
  then consider "0 < x" | "0 < - x" by linarith
  then show ?thesis
  proof cases
    case 1 then show ?thesis using double_pos_pos [of x] by (simp add: double_def)
  next
    case 2 then show ?thesis using double_pos_pos [of "- x"] by (simp add: double_def)
  qed
qed

lemma double_two: "double 2 = 2"
  by code_simp

lemma double_2001: "2 < double (2001 / 1000)"
  by code_simp

section \<open>The progress tracker\<close>

lemma handle_tile_progress:
  "ev_type d = ''tile_progress'' \<Longrightarrow> tracker_handleWSEvent now d s = on_tile_progress now d s"
  by (simp add: tracker_handleWSEvent_def)

lemma num_or_nonzero: "num_or x 1 \<noteq> 0"
  by (simp add: num_or_def split: option.split)

lemma tile_percent_fin:
  "tile_percent d =
     Fin (round (double (double (of_int (num_or (tiles_done d) 0) / of_int (num_or (tiles_total d) 1)) * 100)))"
  by (simp add: tile_percent_def Let_def num_or_nonzero)

lemma round_percent_mono:
  fixes a b T :: int
  assumes "a \<le> b" "0 < T"
  shows "round (double (double (of_int a / of_int T) * 100))
           \<le> round (double (double (of_int b / of_int T) * 100))"
proof -
  have "(of_int a :: rat) / of_int T \<le> of_int b / of_int T"
    using assms by (simp add: divide_right_mono)
  then have "double (of_int a / of_int T) \<le> double (of_int b / of_int T)"
    by (rule double_mono)
  then have "double (of_int a / of_int T) * 100 \<le> double (of_int b / of_int T) * 100"
    by (rule mult_right_mono) simp
  then have "double (double (of_int a / of_int T) * 100) \<le> double (double (of_int b / of_int T) * 100)"
    by (rule double_mono)
  then show ?thesis by (rule round_mono)
qed

lemma run_length: "length (tracker_run es s) = length es"
  by (induction es arbitrary: s) auto

lemma run_percent:
  assumes "\<forall>e\<in>set es. ev_type (snd e) = ''tile_progress''"
  shows "map progressPercent (tracker_run es s) = map (\<lambda>e. tile_percent (snd e)) es"
  using assms
  by (induction es arbitrary: s) (auto simp: handle_tile_progress on_tile_progress_def)

lemma run_label:
  assumes "\<forall>e\<in>set es. ev_type (snd e) = ''tile_progress''" "i < length es"
  shows "prefix (tile_label (snd (es ! i))) (progressLabel (tracker_run es s ! i))"
  using assms
proof (induction es arbitrary: s i)
  case Nil then show ?case by simp
next
  case (Cons e es)
  obtain now d where e: "e = (now, d)" by (cases e)
  show ?case
  proof (cases i)
    case 0
    with Cons.prems e show ?thesis by (simp add: handle_tile_progress on_tile_progress_def)
  next
    case (Suc j)
    with Cons e show ?thesis by simp
  qed
qed

lemma sorted_percents:
  fixes ds :: "int list"
  assumes "sorted ds" "0 < T"
  shows "sorted_wrt ext_le (map (\<lambda>a. Fin (round (double (double (of_int a / of_int T) * 100)))) ds)"
  using assms
proof (induction ds)
  case Nil
  then show ?case by simp
next
  case (Cons a ds)
  have "ext_le (Fin (round (double (double (of_int a / of_int T) * 100))))
               (Fin (round (double (double (of_int x / of_int T) * 100))))"
    if "x \<in> set ds" for x
    using that Cons.prems round_percent_mono [of a x T] by simp
  with Cons show ?case by simp
qed

lemma elapsed_fin:
  "elapsed now s = Fin (double (of_int (now - (case startTime s of None \<Rightarrow> 0 | Some t \<Rightarrow> t)) / 1000))"
  by (simp add: elapsed_def)

lemma two_seconds:
  fixes ms :: int
  shows "2 < double (of_int ms / 1000) \<longleftrightarrow> 2000 < ms"
proof
  assume a: "2 < double (of_int ms / 1000)"
  show "2000 < ms"
  proof (rule ccontr)
    assume "\<not> 2000 < ms"
    then have "(of_int ms :: rat) / 1000 \<le> 2" by simp
    then have "double (of_int ms / 1000) \<le> double 2" by (rule double_mono)
    then show False using a by (simp add: double_two)
  qed
next
  assume "2000 < ms"
  then have "2001 \<le> ms" by simp
  then have "(2001 :: rat) \<le> of_int ms" by (metis of_int_le_iff of_int_numeral)
  then have "(2001 :: rat) / 1000 \<le> of_int ms / 1000" by simp
  then have "double (2001 / 1000) \<le> double (of_int ms / 1000)" by (rule double_mono)
  then show "2 < double (of_int ms / 1000)" using double_2001 by linarith
qed

text \<open>
  Claim C4, as the code has it. For every sequence of \<open>tile_progress\<close> events the percent
  after every event is \<open>Math.round\<close> of the binary64 product \<open>(done / total) * 100\<close>, an
  absent or zero total counting as 1, and whenever \<open>total_passes > 1\<close> the label starts with
  \<open>Pass p/P - Tiles: done/total\<close> (the dash being an em dash). The percents do not decrease
  when the events have one positive total \<open>T\<close> and their done counts do not decrease; the
  reducer does not compare an event with the previous one, so nothing less gives it.
\<close>

theorem tile_percent_sequence:
  assumes "\<forall>e\<in>set es. ev_type (snd e) = ''tile_progress''"
  shows "map progressPercent (tracker_run es s) =
           map (\<lambda>e. Fin (round (double (double (of_int (num_or (tiles_done (snd e)) 0)
                                                  / of_int (num_or (tiles_total (snd e)) 1)) * 100)))) es
       \<and> (\<forall>i<length es. 1 < num_or (total_passes (snd (es ! i))) 1 \<longrightarrow>
            prefix (''Pass '' @ show_int (num_or (pass_num (snd (es ! i))) 1) @ ''/''
                      @ show_int (num_or (total_passes (snd (es ! i))) 1) @ dash
                      @ ''Tiles: '' @ show_int (num_or (tiles_done (snd (es ! i))) 0) @ ''/''
                      @ show_int (num_or (tiles_total (snd (es ! i))) 1))
                   (progressLabel (tracker_run es s ! i)))
       \<and> ((\<forall>e\<in>set es. num_or (tiles_total (snd e)) 1 = T) \<and> 0 < T
            \<and> sorted (map (\<lambda>e. num_or (tiles_done (snd e)) 0) es)
          \<longrightarrow> sorted_wrt ext_le (map progressPercent (tracker_run es s)))"
proof -
  have pct: "map progressPercent (tracker_run es s) =
      map (\<lambda>e. Fin (round (double (double (of_int (num_or (tiles_done (snd e)) 0)
                                             / of_int (num_or (tiles_total (snd e)) 1)) * 100)))) es"
    unfolding run_percent [OF assms] by (simp add: tile_percent_fin)
  have lab: "prefix (''Pass '' @ show_int (num_or (pass_num (snd (es ! i))) 1) @ ''/''
                      @ show_int (num_or (total_passes (snd (es ! i))) 1) @ dash
                      @ ''Tiles: '' @ show_int (num_or (tiles_done (snd (es ! i))) 0) @ ''/''
                      @ show_int (num_or (tiles_total (snd (es ! i))) 1))
                   (progressLabel (tracker_run es s ! i))"
    if "i < length es" "1 < num_or (total_passes (snd (es ! i))) 1" for i
  proof -
    have "tile_label (snd (es ! i)) = ''Pass '' @ show_int (num_or (pass_num (snd (es ! i))) 1) @ ''/''
                      @ show_int (num_or (total_passes (snd (es ! i))) 1) @ dash
                      @ ''Tiles: '' @ show_int (num_or (tiles_done (snd (es ! i))) 0) @ ''/''
                      @ show_int (num_or (tiles_total (snd (es ! i))) 1)"
      using that(2) by (simp add: tile_label_def Let_def)
    then show ?thesis using run_label [OF assms that(1), of s] by simp
  qed
  have mono: "sorted_wrt ext_le (map progressPercent (tracker_run es s))"
    if h: "(\<forall>e\<in>set es. num_or (tiles_total (snd e)) 1 = T) \<and> 0 < T
            \<and> sorted (map (\<lambda>e. num_or (tiles_done (snd e)) 0) es)"
  proof -
    have tot: "\<forall>e\<in>set es. num_or (tiles_total (snd e)) 1 = T" using h by (rule conjunct1)
    have T: "0 < T" using h by (rule conjunct2 [THEN conjunct1])
    have srt: "sorted (map (\<lambda>e. num_or (tiles_done (snd e)) 0) es)"
      using h by (rule conjunct2 [THEN conjunct2])
    have "sorted_wrt ext_le (map (\<lambda>a. Fin (round (double (double (of_int a / of_int T) * 100))))
            (map (\<lambda>e. num_or (tiles_done (snd e)) 0) es))"
      using srt T by (rule sorted_percents)
    moreover have "map progressPercent (tracker_run es s) =
        map (\<lambda>a. Fin (round (double (double (of_int a / of_int T) * 100))))
            (map (\<lambda>e. num_or (tiles_done (snd e)) 0) es)"
      unfolding pct using tot by (simp add: comp_def)
    ultimately show ?thesis by simp
  qed
  from pct lab mono show ?thesis by (intro conjI allI impI)
qed

text \<open>
  Claim C3, as the code has it. For every \<open>tile_progress\<close> event the label carries no
  estimate when at most 2000 ms have passed since the start time or when no tile is done:
  it is the tile label alone and does not end in \<open>remaining\<close>. When more than 2000 ms have
  passed and \<open>0 < done < total\<close>, the label ends with the estimate, which is positive: it is
  \<open>Math.ceil\<close> of the binary64 quotient \<open>(total - done) / (done / seconds)\<close>, each of the
  three divisions rounded to binary64.
\<close>

theorem eta_shown:
  assumes "ev_type d = ''tile_progress''"
  shows "let done = num_or (tiles_done d) 0;
             total = num_or (tiles_total d) 1;
             ms = now - (case startTime s of None \<Rightarrow> 0 | Some t \<Rightarrow> t);
             label = progressLabel (tracker_handleWSEvent now d s)
         in ((ms \<le> 2000 \<or> done = 0) \<longrightarrow> label = tile_label d \<and> \<not> suffix ''remaining'' label)
          \<and> (2000 < ms \<and> 0 < done \<and> done < total \<longrightarrow>
               (let eta = \<lceil>double (of_int (total - done) / double (of_int done / double (of_int ms / 1000)))\<rceil>
                in 0 < eta \<and> label = tile_label d @ dash @ ''~'' @ show_int eta @ ''s remaining''))"
proof -
  define dn where "dn = num_or (tiles_done d) 0"
  define tot where "tot = num_or (tiles_total d) 1"
  define ms where "ms = now - (case startTime s of None \<Rightarrow> 0 | Some t \<Rightarrow> t)"
  define el where "el = double (of_int ms / 1000)"
  have lab: "progressLabel (tracker_handleWSEvent now d s) = tile_label d @ eta_suffix now d s"
    using assms by (simp add: handle_tile_progress on_tile_progress_def)
  have el: "elapsed now s = Fin el" by (simp add: elapsed_fin ms_def el_def)
  have gt: "2 < el \<longleftrightarrow> 2000 < ms" unfolding el_def by (rule two_seconds)
  have absent: "eta_suffix now d s = []" if "ms \<le> 2000 \<or> dn = 0"
    using that gt by (auto simp: eta_suffix_def Let_def el dn_def[symmetric])
  have present: "0 < \<lceil>double (of_int (tot - dn) / double (of_int dn / el))\<rceil> \<and>
       eta_suffix now d s = dash @ ''~'' @ show_int \<lceil>double (of_int (tot - dn) / double (of_int dn / el))\<rceil> @ ''s remaining''"
    if "2000 < ms" "0 < dn" "dn < tot"
  proof -
    have elpos: "0 < el" using that(1) gt by simp
    have "(0::rat) < of_int dn / el" using that(2) elpos by simp
    then have rate: "0 < double (of_int dn / el)" by (simp only: double_pos_iff)
    have "(0::rat) < of_int (tot - dn) / double (of_int dn / el)" using that(3) rate by simp
    then have pos: "0 < double (of_int (tot - dn) / double (of_int dn / el))"
      by (simp only: double_pos_iff)
    have nz: "double (of_int dn / el) \<noteq> 0" using rate by simp
    have elnz: "el \<noteq> 0" using elpos by simp
    have g: "2 < el" using that(1) gt by simp
    have "eta_suffix now d s = dash @ ''~'' @ show_int \<lceil>double (of_int (tot - dn) / double (of_int dn / el))\<rceil> @ ''s remaining''"
      using that(2) g nz elnz unfolding eta_suffix_def Let_def el dn_def[symmetric] tot_def[symmetric]
      by simp
    moreover have "0 < \<lceil>double (of_int (tot - dn) / double (of_int dn / el))\<rceil>"
      using pos by (simp only: zero_less_ceiling)
    ultimately show ?thesis by simp
  qed
  show ?thesis
    unfolding Let_def dn_def[symmetric] tot_def[symmetric] ms_def[symmetric] el_def[symmetric] lab
    using absent present tile_label_no_eta [of d] by auto
qed

lemmas show_simps = show_int_def show_nat.simps digit_char_def

lemma double_1_2: "round (double (double (1 / 2) * 100)) = 50"
  by code_simp

lemma double_3_10: "round (double (double (3 / 10) * 100)) = 30"
  by code_simp

lemma double_5_10: "round (double (double (5 / 10) * 100)) = 50"
  by code_simp

lemma double_23_40: "round (double (double (23 / 40) * 100)) = 57"
  by code_simp

lemma double_neg_3_10: "round (double (double (3 / - 10) * 100)) = - 30"
  by code_simp

lemma double_neg_5_10: "round (double (double (5 / - 10) * 100)) = - 50"
  by code_simp

text \<open>
  Claim C4 as stated fails. With a total of 10, five tiles done and then three give 50
  percent and then 30. With a total of 40, 23 tiles done give 57 percent where
  \<open>round (23 / 40 * 100)\<close> is 58: the binary64 product is 57.49999999999999. With a total of
  -10, three tiles done and then five give -30 and then -50.
\<close>

theorem tile_percent_decreases:
  "map progressPercent
     (tracker_run [(1000, tile_ev 5 10 1 1), (2000, tile_ev 3 10 1 1)] (tracker_init 0 progressTracker0))
     = [Fin 50, Fin 30]
   \<and> \<not> sorted_wrt ext_le (map progressPercent
        (tracker_run [(1000, tile_ev 5 10 1 1), (2000, tile_ev 3 10 1 1)] (tracker_init 0 progressTracker0)))
   \<and> progressPercent (tracker_handleWSEvent 1000 (tile_ev 23 40 1 1) (tracker_init 0 progressTracker0)) = Fin 57
   \<and> round (23 / 40 * 100 :: rat) = 58
   \<and> map progressPercent
       (tracker_run [(1000, tile_ev 3 (- 10) 1 1), (2000, tile_ev 5 (- 10) 1 1)] (tracker_init 0 progressTracker0))
       = [Fin (- 30), Fin (- 50)]"
proof -
  have a: "map progressPercent
     (tracker_run [(1000, tile_ev 5 10 1 1), (2000, tile_ev 3 10 1 1)] (tracker_init 0 progressTracker0))
     = [Fin 50, Fin 30]"
    using double_3_10 double_5_10
    by (simp add: tile_ev_def handle_tile_progress on_tile_progress_def tile_percent_fin num_or_def)
  have b: "\<not> sorted_wrt ext_le (map progressPercent
        (tracker_run [(1000, tile_ev 5 10 1 1), (2000, tile_ev 3 10 1 1)] (tracker_init 0 progressTracker0)))"
    unfolding a by simp
  have c: "progressPercent (tracker_handleWSEvent 1000 (tile_ev 23 40 1 1) (tracker_init 0 progressTracker0)) = Fin 57"
    using double_23_40
    by (simp add: tile_ev_def handle_tile_progress on_tile_progress_def tile_percent_fin num_or_def)
  have d: "round (23 / 40 * 100 :: rat) = 58" by (simp add: round_def)
  have e: "map progressPercent
       (tracker_run [(1000, tile_ev 3 (- 10) 1 1), (2000, tile_ev 5 (- 10) 1 1)] (tracker_init 0 progressTracker0))
       = [Fin (- 30), Fin (- 50)]"
    using double_neg_3_10 double_neg_5_10
    by (simp add: tile_ev_def handle_tile_progress on_tile_progress_def tile_percent_fin num_or_def)
  from a b c d e show ?thesis by (intro conjI)
qed

text \<open>Claim C4 on two events of a two-pass job, three and then five of ten tiles.\<close>

theorem tile_percent_sequence_witness:
  "map progressPercent (tracker_run [(1000, tile_ev 3 10 1 2), (2000, tile_ev 5 10 1 2)] (tracker_init 0 progressTracker0))
     = [Fin 30, Fin 50]
   \<and> sorted_wrt ext_le (map progressPercent
        (tracker_run [(1000, tile_ev 3 10 1 2), (2000, tile_ev 5 10 1 2)] (tracker_init 0 progressTracker0)))
   \<and> prefix (''Pass 1/2'' @ dash @ ''Tiles: 3/10'')
        (progressLabel (tracker_run [(1000, tile_ev 3 10 1 2), (2000, tile_ev 5 10 1 2)] (tracker_init 0 progressTracker0) ! 0))"
proof -
  let ?es = "[(1000, tile_ev 3 10 1 2), (2000, tile_ev 5 10 1 2)]"
  have h1: "\<forall>e\<in>set ?es. ev_type (snd e) = ''tile_progress''"
    by (simp add: tile_ev_def)
  have h2: "(\<forall>e\<in>set ?es. num_or (tiles_total (snd e)) 1 = 10) \<and> (0::int) < 10
            \<and> sorted (map (\<lambda>e. num_or (tiles_done (snd e)) 0) ?es)"
    by (simp add: tile_ev_def num_or_def)
  note t = tile_percent_sequence [OF h1, of "tracker_init 0 progressTracker0" 10]
  have "map progressPercent (tracker_run ?es (tracker_init 0 progressTracker0)) = [Fin 30, Fin 50]"
    using t [THEN conjunct1] double_3_10 double_5_10 by (simp add: tile_ev_def num_or_def)
  moreover have "sorted_wrt ext_le (map progressPercent (tracker_run ?es (tracker_init 0 progressTracker0)))"
    using t [THEN conjunct2, THEN conjunct2] h2 by (rule mp)
  moreover have "prefix (''Pass 1/2'' @ dash @ ''Tiles: 3/10'')
        (progressLabel (tracker_run ?es (tracker_init 0 progressTracker0) ! 0))"
    using t [THEN conjunct2, THEN conjunct1, rule_format, of 0]
    by (simp add: tile_ev_def num_or_def show_simps)
  ultimately show ?thesis by (intro conjI)
qed

lemma eta_5000: "\<lceil>double (of_int (10 - 5) / double (of_int 5 / double (of_int 5000 / 1000)))\<rceil> = 5"
  by code_simp

lemma eta_2600: "\<lceil>double (of_int (6 - 1) / double (of_int 1 / double (of_int 2600 / 1000)))\<rceil> = 14"
  by code_simp

text \<open>Claim C3 on five of ten tiles, 1500 ms and 5000 ms after the start.\<close>

theorem eta_shown_witness:
  "progressLabel (tracker_handleWSEvent 1500 (tile_ev 5 10 1 1) (tracker_init 0 progressTracker0)) = ''Tiles: 5/10''
   \<and> progressLabel (tracker_handleWSEvent 5000 (tile_ev 5 10 1 1) (tracker_init 0 progressTracker0))
       = ''Tiles: 5/10'' @ dash @ ''~5s remaining''"
proof -
  have h: "ev_type (tile_ev 5 10 1 1) = ''tile_progress''" by (simp add: tile_ev_def)
  have tl: "tile_label (tile_ev 5 10 1 1) = ''Tiles: 5/10''"
    by (simp add: tile_label_def tile_ev_def num_or_def show_simps)
  have a: "progressLabel (tracker_handleWSEvent 1500 (tile_ev 5 10 1 1) (tracker_init 0 progressTracker0)) = ''Tiles: 5/10''"
    using eta_shown [OF h, of 1500 "tracker_init 0 progressTracker0"] tl
    by (simp add: Let_def tracker_init_def tile_ev_def num_or_def)
  have b: "progressLabel (tracker_handleWSEvent 5000 (tile_ev 5 10 1 1) (tracker_init 0 progressTracker0))
       = ''Tiles: 5/10'' @ dash @ ''~5s remaining''"
    using eta_shown [OF h, of 5000 "tracker_init 0 progressTracker0"] tl eta_5000
    by (simp add: Let_def tracker_init_def tile_ev_def num_or_def show_simps)
  from a b show ?thesis by (rule conjI)
qed

text \<open>
  Claim C3 as stated fails: the estimate is not the quotient \<open>(total - done) / (done / elapsed)\<close>
  rounded up. With one of six tiles done 2600 ms after the start the quotient is 13, and
  the label shows 14 seconds: the binary64 quotient is 13.000000000000002.
\<close>

theorem eta_above_exact_quotient:
  "progressLabel (tracker_handleWSEvent 2600 (tile_ev 1 6 1 1) (tracker_init 0 progressTracker0))
     = ''Tiles: 1/6'' @ dash @ ''~14s remaining''
   \<and> \<lceil>(of_int (6 - 1) :: rat) / (of_int 1 / (of_int 2600 / 1000))\<rceil> = 13"
proof -
  have el: "elapsed 2600 (tracker_init 0 progressTracker0) = Fin (double (of_int 2600 / 1000))"
    by (simp add: elapsed_fin tracker_init_def)
  have g: "2 < double (of_int 2600 / 1000)" unfolding two_seconds by simp
  then have nz: "double (of_int 2600 / 1000) \<noteq> 0" by simp
  have "(of_int 1 :: rat) / double (of_int 2600 / 1000) \<noteq> 0" using nz by simp
  then have nz2: "double (of_int 1 / double (of_int 2600 / 1000)) \<noteq> 0" by (rule double_ne_zero)
  have tl: "tile_label (tile_ev 1 6 1 1) = ''Tiles: 1/6''"
    by (simp add: tile_label_def tile_ev_def num_or_def show_simps)
  have sf: "eta_suffix 2600 (tile_ev 1 6 1 1) (tracker_init 0 progressTracker0)
              = dash @ ''~14s remaining''"
    unfolding eta_suffix_def Let_def el using g nz nz2 eta_2600
    by (simp add: tile_ev_def num_or_def show_simps)
  have a: "progressLabel (tracker_handleWSEvent 2600 (tile_ev 1 6 1 1) (tracker_init 0 progressTracker0))
     = ''Tiles: 1/6'' @ dash @ ''~14s remaining''"
    by (simp add: handle_tile_progress [of "tile_ev 1 6 1 1"] tile_ev_def [of 1 6 1 1, THEN arg_cong [of _ _ ev_type]]
          on_tile_progress_def tl sf)
  have b: "\<lceil>(of_int (6 - 1) :: rat) / (of_int 1 / (of_int 2600 / 1000))\<rceil> = 13" by simp
  from a b show ?thesis by (rule conjI)
qed

lemma eta_suffix_cases:
  "eta_suffix now d s = [] \<or> (\<exists>eta. eta_suffix now d s = dash @ ''~'' @ show_int eta @ ''s remaining'')"
proof (cases "0 < num_or (tiles_done d) 0 \<and> js_gt (elapsed now s) 2")
  case False
  then show ?thesis by (auto simp: eta_suffix_def Let_def)
next
  case True
  define el where "el = double (of_int (now - (case startTime s of None \<Rightarrow> 0 | Some t \<Rightarrow> t)) / 1000)"
  have el: "elapsed now s = Fin el" by (simp add: elapsed_fin el_def)
  have elnz: "el \<noteq> 0" using True by (auto simp: el)
  then have "(of_int (num_or (tiles_done d) 0) :: rat) / el \<noteq> 0" using True by simp
  then have nz: "double (of_int (num_or (tiles_done d) 0) / el) \<noteq> 0" by (rule double_ne_zero)
  show ?thesis using True nz elnz
    by (auto simp add: eta_suffix_def Let_def el)
qed

lemma batch_percent_fin: "is_fin (progressPercent (on_batch_progress d s))"
  by (simp add: on_batch_progress_def Let_def num_or_nonzero)

lemma download_percent_fin: "is_fin (progressPercent (on_download_progress d s))"
  by (simp add: on_download_progress_def Let_def num_or_nonzero)

lemma tile_percent_is_fin: "is_fin (progressPercent (on_tile_progress now d s))"
  by (simp add: on_tile_progress_def tile_percent_fin)

text \<open>
  Claim C9. The divisor of every percent is \<open>x || 1\<close>, which is 1 for an absent or zero
  field and never zero, so the quotient is a finite number; the percents of tile, batch and
  download events are finite, the download percent is 0 when its total is not positive,
  the estimate is never rendered from a non-finite number, and the handler keeps the
  percent finite for every event.
\<close>

theorem tracker_never_divides_by_zero:
  "num_or None 1 = 1 \<and> num_or (Some 0) 1 = 1 \<and> num_or x 1 \<noteq> 0
   \<and> js_div (Fin n) (Fin (of_int (num_or x 1))) = Fin (double (n / of_int (num_or x 1)))
   \<and> is_fin (progressPercent (on_tile_progress now d s))
   \<and> is_fin (progressPercent (on_batch_progress d s))
   \<and> is_fin (progressPercent (on_download_progress d s))
   \<and> (num_or (ev_total d) 1 \<le> 0 \<longrightarrow> progressPercent (on_download_progress d s) = Fin 0)
   \<and> (eta_suffix now d s = [] \<or> (\<exists>eta. eta_suffix now d s = dash @ ''~'' @ show_int eta @ ''s remaining''))
   \<and> (is_fin (progressPercent s) \<longrightarrow> is_fin (progressPercent (tracker_handleWSEvent now d s)))"
proof -
  have 1: "num_or None 1 = 1 \<and> num_or (Some 0) 1 = 1" by (simp add: num_or_def)
  have 2: "js_div (Fin n) (Fin (of_int (num_or x 1))) = Fin (double (n / of_int (num_or x 1)))"
    by (simp add: num_or_nonzero)
  have 3: "num_or (ev_total d) 1 \<le> 0 \<longrightarrow> progressPercent (on_download_progress d s) = Fin 0"
    by (simp add: on_download_progress_def Let_def)
  have 4: "is_fin (progressPercent s) \<longrightarrow> is_fin (progressPercent (tracker_handleWSEvent now d s))"
    by (simp add: tracker_handleWSEvent_def Let_def tile_percent_is_fin batch_percent_fin download_percent_fin
        on_model_loading_def on_model_loaded_def on_comparison_model_start_def on_image_complete_def)
  from 1 2 3 4 show ?thesis
    using num_or_nonzero [of x] tile_percent_is_fin batch_percent_fin download_percent_fin eta_suffix_cases
    by blast
qed

text \<open>Claim C9 on a download event whose total is negative.\<close>

theorem tracker_never_divides_by_zero_witness:
  "progressPercent (on_download_progress ((plain_ev ''download_progress'')\<lparr>ev_total := Some (- 5)\<rparr>) progressTracker0)
     = Fin 0
   \<and> is_fin (progressPercent (tracker_handleWSEvent 0
        ((plain_ev ''download_progress'')\<lparr>ev_total := Some (- 5)\<rparr>) progressTracker0))"
proof -
  let ?d = "(plain_ev ''download_progress'')\<lparr>ev_total := Some (- 5)\<rparr>"
  note t = tracker_never_divides_by_zero [of None 0 0 ?d progressTracker0]
  have h1: "num_or (ev_total ?d) 1 \<le> 0" by (simp add: plain_ev_def num_or_def)
  have h2: "is_fin (progressPercent progressTracker0)" by (simp add: progressTracker0_def)
  have "num_or (ev_total ?d) 1 \<le> 0 \<longrightarrow> progressPercent (on_download_progress ?d progressTracker0) = Fin 0"
    by (rule t [THEN conjunct2, THEN conjunct2, THEN conjunct2, THEN conjunct2, THEN conjunct2,
          THEN conjunct2, THEN conjunct2, THEN conjunct1])
  with h1 have a: "progressPercent (on_download_progress ?d progressTracker0) = Fin 0" by simp
  have "is_fin (progressPercent progressTracker0) \<longrightarrow>
        is_fin (progressPercent (tracker_handleWSEvent 0 ?d progressTracker0))"
    by (rule t [THEN conjunct2, THEN conjunct2, THEN conjunct2, THEN conjunct2, THEN conjunct2,
          THEN conjunct2, THEN conjunct2, THEN conjunct2, THEN conjunct2])
  with h2 have b: "is_fin (progressPercent (tracker_handleWSEvent 0 ?d progressTracker0))" by simp
  from a b show ?thesis by (rule conjI)
qed

section \<open>The poll loops\<close>

lemma delays_Nil: "delays [] = []"
  by (simp add: delays_def map_filter_simps)

lemma delays_Cons:
  "delays (e # es) = (case timeout_ms e of None \<Rightarrow> delays es | Some ms \<Rightarrow> ms # delays es)"
  unfolding delays_def by (simp add: map_filter_simps)

lemma delays_append: "delays (es @ fs) = delays es @ delays fs"
  by (induction es) (simp_all add: delays_Nil delays_Cons split: option.split)

lemma fetches_append: "fetches (es @ fs) = fetches es + fetches fs"
  by (simp add: fetches_def)

lemma pollJob_poll_error:
  "pollJob_poll j FetchError s = (s, [Fetch ''GET'' (''/api/jobs/'' @ j) [], SetTimeout (PollJob j) 3000])"
  by (simp add: pollJob_poll_def)

lemma pollJob_poll_steady:
  "status data \<noteq> ''completed'' \<Longrightarrow> status data \<noteq> ''failed'' \<Longrightarrow>
   pollJob_poll j (Fetched data) s = (s, [Fetch ''GET'' (''/api/jobs/'' @ j) [], SetTimeout (PollJob j) 2000])"
  by (simp add: pollJob_poll_def)

lemma pollJob_poll_completed:
  "status data = ''completed'' \<Longrightarrow>
   pollJob_poll j (Fetched data) s =
     (s\<lparr>batchRunning := False,
        batchStatus := (case first_result data of Some r \<Rightarrow> complete_status r | None \<Rightarrow> ''Batch complete'')\<rparr>,
      [Fetch ''GET'' (''/api/jobs/'' @ j) [], Dispatch (Toast ''Batch processing complete'' ''success'')])"
  by (simp add: pollJob_poll_def)

lemma pollJob_poll_failed:
  "status data = ''failed'' \<Longrightarrow>
   pollJob_poll j (Fetched data) s =
     (s\<lparr>batchRunning := False, batchStatus := ''Failed: '' @ str_or (job_error data) ''Unknown error''\<rparr>,
      [Fetch ''GET'' (''/api/jobs/'' @ j) []])"
  by (simp add: pollJob_poll_def)

lemma reschedules_simps:
  "reschedules [Fetch m u b, SetTimeout c ms]"
  "\<not> reschedules [Fetch m u b, Dispatch ev]"
  "\<not> reschedules [Fetch m u b]"
  by (simp_all add: reschedules_def delays_Cons delays_Nil)

lemma pollJob_loop_errors:
  "pollJob_loop j (replicate n FetchError @ fs) s =
     (fst (pollJob_loop j fs s),
      concat (replicate n [Fetch ''GET'' (''/api/jobs/'' @ j) [], SetTimeout (PollJob j) 3000])
        @ snd (pollJob_loop j fs s))"
  by (induction n) (simp_all add: pollJob_poll_error reschedules_simps split: prod.split)

lemma pollJob_loop_terminal:
  assumes "status data = ''completed'' \<or> status data = ''failed''"
  shows "pollJob_loop j (Fetched data # fs) s = pollJob_poll j (Fetched data) s"
  using assms
  by (auto simp: pollJob_poll_completed pollJob_poll_failed reschedules_simps)

lemma delays_retries:
  "delays (concat (replicate n [Fetch m u b, SetTimeout c ms])) = replicate n ms"
  by (induction n) (simp_all add: delays_Nil delays_Cons)

lemma fetches_retries:
  "fetches (concat (replicate n [Fetch m u b, SetTimeout c ms])) = n"
  by (induction n) (simp_all add: fetches_def)

lemma toasts_retries:
  "filter is_toast (concat (replicate n [Fetch m u b, SetTimeout c ms])) = []"
  by (induction n) simp_all


lemma pollComparison_poll_error:
  "pollComparison_poll cid FetchError (s, c) =
     ((s, c), [Fetch ''GET'' (''/api/compare/'' @ cid) [], SetTimeout (PollComparison cid) 2000])"
  by (simp add: pollComparison_poll_def)

lemma comparison_run_errors:
  "comparison_run cid (map Poll (replicate n FetchError) @ ins) (s, c, True) =
     (fst (comparison_run cid ins (s, c, True)),
      concat (replicate n [Fetch ''GET'' (''/api/compare/'' @ cid) [], SetTimeout (PollComparison cid) 2000])
        @ snd (comparison_run cid ins (s, c, True)))"
  by (induction n) (simp_all add: pollComparison_poll_error reschedules_simps split: prod.split)

lemma fold_forward_effects:
  "snd (fold forward_result rs (sn, es)) = es @ snd (fold forward_result rs (sn, []))"
proof (induction rs arbitrary: sn es)
  case Nil
  then show ?case by simp
next
  case (Cons r rs)
  show ?case
  proof (cases "result_model_id r \<in> set sn")
    case True
    then show ?thesis using Cons.IH [of sn es] by (simp add: forward_result_def)
  next
    case False
    then show ?thesis
      using Cons.IH [of "sn @ [result_model_id r]" "es @ [Dispatch (ComparisonResult (result_detail r))]"]
            Cons.IH [of "sn @ [result_model_id r]" "[Dispatch (ComparisonResult (result_detail r))]"]
      by (simp add: forward_result_def)
  qed
qed

lemma fold_forward_seen:
  "fst (fold forward_result rs (sn, es)) = fst (fold forward_result rs (sn, []))"
proof (induction rs arbitrary: sn es)
  case Nil
  then show ?case by simp
next
  case (Cons r rs)
  show ?case
  proof (cases "result_model_id r \<in> set sn")
    case True
    then show ?thesis using Cons.IH [of sn es] by (simp add: forward_result_def)
  next
    case False
    then show ?thesis
      using Cons.IH [of "sn @ [result_model_id r]" "es @ [Dispatch (ComparisonResult (result_detail r))]"]
            Cons.IH [of "sn @ [result_model_id r]" "[Dispatch (ComparisonResult (result_detail r))]"]
      by (simp add: forward_result_def)
  qed
qed

lemma forwarded_Nil: "forwarded [] = []"
  unfolding forwarded_def by (simp add: map_filter_simps)

lemma forwarded_Cons:
  "forwarded (e # es) = (case forwarded_id e of None \<Rightarrow> forwarded es | Some m \<Rightarrow> m # forwarded es)"
  unfolding forwarded_def by (simp add: map_filter_simps)

lemma forwarded_append: "forwarded (es @ fs) = forwarded es @ forwarded fs"
  by (induction es) (simp_all add: forwarded_Nil forwarded_Cons split: option.split)

lemma fold_forward_inv:
  "fst (fold forward_result rs (sn, [])) = sn @ forwarded (snd (fold forward_result rs (sn, [])))
   \<and> (distinct sn \<longrightarrow> distinct (fst (fold forward_result rs (sn, []))))
   \<and> set (fst (fold forward_result rs (sn, []))) = set sn \<union> result_model_id ` set rs
   \<and> delays (snd (fold forward_result rs (sn, []))) = []
   \<and> fetches (snd (fold forward_result rs (sn, []))) = 0"
proof (induction rs arbitrary: sn)
  case Nil
  then show ?case by (simp add: forwarded_Nil delays_Nil fetches_def)
next
  case (Cons r rs)
  show ?case
  proof (cases "result_model_id r \<in> set sn")
    case True
    then show ?thesis using Cons.IH [of sn] by (auto simp: forward_result_def)
  next
    case False
    let ?sn = "sn @ [result_model_id r]"
    let ?e = "Dispatch (ComparisonResult (result_detail r))"
    have step: "fold forward_result (r # rs) (sn, []) = fold forward_result rs (?sn, [?e])"
      using False by (simp add: forward_result_def)
    have e1: "snd (fold forward_result rs (?sn, [?e])) = [?e] @ snd (fold forward_result rs (?sn, []))"
      by (rule fold_forward_effects)
    have e2: "fst (fold forward_result rs (?sn, [?e])) = fst (fold forward_result rs (?sn, []))"
      by (rule fold_forward_seen)
    have fid: "forwarded [?e] = [result_model_id r]"
      by (simp add: forwarded_Cons forwarded_Nil result_detail_def)
    show ?thesis
      unfolding step e1 e2 forwarded_append delays_append fetches_append fid
      using Cons.IH [of ?sn] False
      by (auto simp: delays_Cons delays_Nil fetches_def)
  qed
qed



lemma completion_of_forwarded_only:
  assumes "\<forall>e\<in>set es. \<forall>d. e \<noteq> Dispatch (ComparisonModelDone d)"
  shows "filter (completion_of m) es = filter (result_of m) es"
  using assms
proof (induction es)
  case Nil
  then show ?case by simp
next
  case (Cons e es)
  show ?case
  proof (cases e)
    case (Dispatch ev)
    then show ?thesis using Cons by (cases ev) simp_all
  qed (use Cons in simp_all)
qed

lemma fold_forward_shape:
  "\<forall>e\<in>set (snd (fold forward_result rs (sn, []))). \<exists>r. e = Dispatch (ComparisonResult r)"
proof (induction rs arbitrary: sn)
  case Nil
  then show ?case by simp
next
  case (Cons r rs)
  show ?case
  proof (cases "result_model_id r \<in> set sn")
    case True
    then show ?thesis using Cons.IH [of sn] by (simp add: forward_result_def)
  next
    case False
    let ?sn = "sn @ [result_model_id r]"
    let ?e = "Dispatch (ComparisonResult (result_detail r))"
    have step: "fold forward_result (r # rs) (sn, []) = fold forward_result rs (?sn, [?e])"
      using False by (simp add: forward_result_def)
    have e1: "snd (fold forward_result rs (?sn, [?e])) = [?e] @ snd (fold forward_result rs (?sn, []))"
      by (rule fold_forward_effects)
    show ?thesis unfolding step e1 using Cons.IH [of ?sn] by auto
  qed
qed

lemma results_only_counts:
  assumes "\<forall>e\<in>set es. \<exists>r. e = Dispatch (ComparisonResult r)"
  shows "filter (completion_of m) es = filter (result_of m) es"
    and "filter (\<lambda>e. e = complete_toast) es = []"
    and "filter is_toast es = []"
proof -
  show "filter (completion_of m) es = filter (result_of m) es"
    using assms by (intro completion_of_forwarded_only) auto
  show "filter (\<lambda>e. e = complete_toast) es = []"
    using assms by (auto simp: filter_empty_conv complete_toast_def)
  show "filter is_toast es = []"
    using assms by (auto simp: filter_empty_conv)
qed

lemma poll_fetched:
  "pollComparison_poll cid (Fetched rs) (s, c) =
     (let sn = fst (fold forward_result rs (seen c, []));
          es = snd (fold forward_result rs (seen c, []));
          req = Fetch ''GET'' (''/api/compare/'' @ cid) []
      in if length sn < expectedCount c
         then ((s, c\<lparr>seen := sn\<rparr>), req # es @ [SetTimeout (PollComparison cid) 1500])
         else ((s\<lparr>isComparing := False\<rparr>, c\<lparr>seen := sn\<rparr>), req # es @ [toast ''Comparison complete'' ''success'']))"
  by (simp add: pollComparison_poll_def Let_def split: prod.split)

lemma poll_step_props:
  assumes "pollComparison_poll cid f (s, c) = ((s1, c1), es)"
  shows "seen c1 = seen c @ forwarded es
       \<and> (distinct (seen c) \<longrightarrow> distinct (seen c1))
       \<and> expectedCount c1 = expectedCount c
       \<and> length (filter (completion_of m) es) = length (filter (result_of m) es)
       \<and> length (filter (\<lambda>e. e = complete_toast) es) = (if reschedules es then 0 else 1)
       \<and> (reschedules es \<longleftrightarrow> f = FetchError \<or> length (seen c1) < expectedCount c)
       \<and> s1 = (if reschedules es then s else s\<lparr>isComparing := False\<rparr>)
       \<and> fetches es = 1"
proof (cases f)
  case FetchError
  then show ?thesis using assms
    by (auto simp: pollComparison_poll_error forwarded_Cons forwarded_Nil reschedules_simps
        complete_toast_def fetches_def)
next
  case (Fetched rs)
  let ?sn = "fst (fold forward_result rs (seen c, []))"
  let ?fs = "snd (fold forward_result rs (seen c, []))"
  let ?req = "Fetch ''GET'' (''/api/compare/'' @ cid) []"
  note inv = fold_forward_inv [of rs "seen c"]
  note shape = fold_forward_shape [of rs "seen c"]
  note cnt = results_only_counts [OF shape]
  have sn: "?sn = seen c @ forwarded ?fs" by (rule inv [THEN conjunct1])
  have dist: "distinct (seen c) \<longrightarrow> distinct ?sn" by (rule inv [THEN conjunct2, THEN conjunct1])
  have nod: "delays ?fs = []"
    by (rule inv [THEN conjunct2, THEN conjunct2, THEN conjunct2, THEN conjunct1])
  have nof: "fetches ?fs = 0"
    by (rule inv [THEN conjunct2, THEN conjunct2, THEN conjunct2, THEN conjunct2])
  obtain final where es: "es = ?req # ?fs @ [final]"
    and c1: "c1 = c\<lparr>seen := ?sn\<rparr>"
    and final: "final = (if length ?sn < expectedCount c then SetTimeout (PollComparison cid) 1500
                         else toast ''Comparison complete'' ''success'')"
    and s1: "s1 = (if length ?sn < expectedCount c then s else s\<lparr>isComparing := False\<rparr>)"
    using assms Fetched by (simp add: poll_fetched Let_def split: if_splits)
  have resch: "reschedules es \<longleftrightarrow> length ?sn < expectedCount c"
    unfolding es final reschedules_def
    by (simp add: delays_Cons delays_append delays_Nil nod toast_def)
  have a1: "seen c1 = seen c @ forwarded es"
    unfolding es c1 final
    by (simp add: forwarded_Cons forwarded_append forwarded_Nil toast_def sn [symmetric])
  have a2: "distinct (seen c) \<longrightarrow> distinct (seen c1)" unfolding c1 using dist by simp
  have a3: "expectedCount c1 = expectedCount c" unfolding c1 by simp
  have a4: "length (filter (completion_of m) es) = length (filter (result_of m) es)"
    unfolding es final using cnt(1) [of m] by (simp add: toast_def)
  have a5: "length (filter (\<lambda>e. e = complete_toast) es) = (if reschedules es then 0 else 1)"
    unfolding resch unfolding es final using cnt(2) by (simp add: toast_def complete_toast_def)
  have a6: "reschedules es \<longleftrightarrow> f = FetchError \<or> length (seen c1) < expectedCount c"
    unfolding resch c1 using Fetched by simp
  have a7: "s1 = (if reschedules es then s else s\<lparr>isComparing := False\<rparr>)"
    unfolding resch s1 by simp
  have a8: "fetches es = 1"
    using nof unfolding es final fetches_def by (simp add: toast_def)
  from a1 a2 a3 a4 a5 a6 a7 a8 show ?thesis by (intro conjI)
qed







lemma pollJob_errors:
  "pollJob j (replicate n FetchError @ fs) s =
     (fst (pollJob_loop j fs s),
      SetTimeout (PollJob j) 1000
      # concat (replicate n [Fetch ''GET'' (''/api/jobs/'' @ j) [], SetTimeout (PollJob j) 3000])
      @ snd (pollJob_loop j fs s))"
  by (simp add: pollJob_def pollJob_loop_errors)

lemma pollComparison_errors:
  "pollComparison cid (map Poll (replicate n FetchError) @ ins) a =
     (fst (comparison_run cid ins (a, \<lparr>expectedCount = length (compareModels a), seen = []\<rparr>, True)),
      SetTimeout (PollComparison cid) 2000
      # concat (replicate n [Fetch ''GET'' (''/api/compare/'' @ cid) [], SetTimeout (PollComparison cid) 2000])
      @ snd (comparison_run cid ins (a, \<lparr>expectedCount = length (compareModels a), seen = []\<rparr>, True)))"
  unfolding pollComparison_def comparison_run_errors by simp

lemma complete_status_nonempty: "complete_status r \<noteq> []"
  by (simp add: complete_status_def)

lemma pollJob_poll_cases:
  "(pollJob_poll j f s = (s, snd (pollJob_poll j f s)) \<and> reschedules (snd (pollJob_poll j f s)))
   \<or> (\<not> batchRunning (fst (pollJob_poll j f s)) \<and> batchStatus (fst (pollJob_poll j f s)) \<noteq> []
       \<and> \<not> reschedules (snd (pollJob_poll j f s)))"
proof (cases f)
  case FetchError
  then show ?thesis by (simp add: pollJob_poll_error reschedules_simps)
next
  case (Fetched data)
  consider "status data = ''completed''" | "status data = ''failed''"
    | "status data \<noteq> ''completed''" "status data \<noteq> ''failed''" by blast
  then show ?thesis
  proof cases
    case 1
    then show ?thesis unfolding Fetched
      by (simp add: pollJob_poll_completed reschedules_simps complete_status_nonempty split: option.split)
  next
    case 2
    then show ?thesis unfolding Fetched
      by (simp add: pollJob_poll_failed reschedules_simps)
  next
    case 3
    then show ?thesis unfolding Fetched
      by (simp add: pollJob_poll_steady reschedules_simps)
  qed
qed

lemma pollJob_loop_inv:
  assumes "batchRunning s"
  shows "(batchRunning (fst (pollJob_loop j fs s)) \<longrightarrow> fst (pollJob_loop j fs s) = s)
       \<and> (\<not> batchRunning (fst (pollJob_loop j fs s)) \<longrightarrow>
            batchStatus (fst (pollJob_loop j fs s)) \<noteq> []
            \<and> (\<forall>gs. pollJob_loop j (fs @ gs) s = pollJob_loop j fs s))"
  using assms
proof (induction fs)
  case Nil
  then show ?case by simp
next
  case (Cons f fs)
  from pollJob_poll_cases [of j f s] show ?case
  proof
    assume a: "pollJob_poll j f s = (s, snd (pollJob_poll j f s)) \<and> reschedules (snd (pollJob_poll j f s))"
    obtain es where es: "pollJob_poll j f s = (s, es)" "reschedules es" using a by metis
    have step: "pollJob_loop j (f # hs) s = (fst (pollJob_loop j hs s), es @ snd (pollJob_loop j hs s))" for hs
      using es by (simp add: split_beta)
    have ih1: "batchRunning (fst (pollJob_loop j fs s)) \<longrightarrow> fst (pollJob_loop j fs s) = s"
      by (rule Cons.IH [OF Cons.prems, THEN conjunct1])
    have ih2: "\<not> batchRunning (fst (pollJob_loop j fs s)) \<longrightarrow>
            batchStatus (fst (pollJob_loop j fs s)) \<noteq> []
            \<and> (\<forall>gs. pollJob_loop j (fs @ gs) s = pollJob_loop j fs s)"
      by (rule Cons.IH [OF Cons.prems, THEN conjunct2])
    show ?thesis
      unfolding append_Cons step using ih1 ih2 by simp
  next
    assume b: "\<not> batchRunning (fst (pollJob_poll j f s)) \<and> batchStatus (fst (pollJob_poll j f s)) \<noteq> []
       \<and> \<not> reschedules (snd (pollJob_poll j f s))"
    have step: "pollJob_loop j (f # hs) s = pollJob_poll j f s" for hs
      using b by (simp add: split_beta)
    show ?thesis unfolding append_Cons step using b by simp
  qed
qed

text \<open>
  Claim C8. When a poll of the batch job reads status \<open>completed\<close> and the first entry of
  \<open>results\<close> carries the three counts, the panel stops running, sets no further timeout and
  shows \<open>Complete: c processed, k skipped, f failed\<close>; for 8, 1 and 1 the text is exactly
  \<open>Complete: 8 processed, 1 skipped, 1 failed\<close>.
\<close>

theorem batch_summary:
  assumes "status data = ''completed''"
    and "results data = Some (r # rs)"
    and "result_completed r = Some c" and "result_skipped r = Some k" and "result_failed r = Some f"
  shows "batchStatus (fst (pollJob_poll j (Fetched data) s))
           = ''Complete: '' @ show_int c @ '' processed, '' @ show_int k @ '' skipped, ''
             @ show_int f @ '' failed''
       \<and> \<not> batchRunning (fst (pollJob_poll j (Fetched data) s))
       \<and> \<not> reschedules (snd (pollJob_poll j (Fetched data) s))
       \<and> batchStatus (fst (pollJob_poll j (Fetched (snapshot ''completed'' 8 1 1)) s))
           = ''Complete: 8 processed, 1 skipped, 1 failed''"
proof -
  have fr: "first_result data = Some r" using assms(2) by (simp add: first_result_def)
  have a: "batchStatus (fst (pollJob_poll j (Fetched data) s))
           = ''Complete: '' @ show_int c @ '' processed, '' @ show_int k @ '' skipped, ''
             @ show_int f @ '' failed''"
    using assms(1,3,4,5) fr
    by (simp add: pollJob_poll_completed complete_status_def show_field_def)
  have b: "\<not> batchRunning (fst (pollJob_poll j (Fetched data) s))"
    using assms(1) by (simp add: pollJob_poll_completed)
  have c: "\<not> reschedules (snd (pollJob_poll j (Fetched data) s))"
    using assms(1) by (simp add: pollJob_poll_completed reschedules_simps)
  have d: "batchStatus (fst (pollJob_poll j (Fetched (snapshot ''completed'' 8 1 1)) s))
           = ''Complete: 8 processed, 1 skipped, 1 failed''"
    by (simp add: snapshot_def pollJob_poll_completed first_result_def complete_status_def
        show_field_def show_simps)
  from a b c d show ?thesis by (intro conjI)
qed

text \<open>Claim C8 at a snapshot with the counts 12, 0 and 3.\<close>

theorem batch_summary_witness:
  "batchStatus (fst (pollJob_poll ''job'' (Fetched (snapshot ''completed'' 12 0 3)) running_batch))
     = ''Complete: 12 processed, 0 skipped, 3 failed''"
proof -
  let ?r = "\<lparr>result_completed = Some 12, result_skipped = Some 0, result_failed = Some 3\<rparr>"
  have h1: "status (snapshot ''completed'' 12 0 3) = ''completed''" by (simp add: snapshot_def)
  have h2: "results (snapshot ''completed'' 12 0 3) = Some (?r # [])" by (simp add: snapshot_def)
  have h3: "result_completed ?r = Some 12" "result_skipped ?r = Some 0" "result_failed ?r = Some 3"
    by simp_all
  show ?thesis
    using batch_summary [OF h1 h2 h3, of "''job''" running_batch, THEN conjunct1]
    by (simp add: show_simps)
qed


lemma comparison_run_stopped:
  "comparison_run cid (map Poll fs) (s, c, False) = ((s, c, False), [])"
  by (induction fs) simp_all

lemma fold_forward_card:
  "length (fst (fold forward_result rs ([], []))) = card (result_model_id ` set rs)"
proof -
  note inv = fold_forward_inv [of rs "[]"]
  have d: "distinct (fst (fold forward_result rs ([], [])))"
    using inv [THEN conjunct2, THEN conjunct1] by simp
  have s: "set (fst (fold forward_result rs ([], []))) = result_model_id ` set rs"
    using inv [THEN conjunct2, THEN conjunct2, THEN conjunct1] by simp
  show ?thesis using distinct_card [OF d] s by simp
qed

lemma poll_complete:
  assumes "expectedCount c \<le> card (result_model_id ` set rs)" "seen c = []"
  shows "fst (pollComparison_poll cid (Fetched rs) (s, c))
           = (s\<lparr>isComparing := False\<rparr>, c\<lparr>seen := fst (fold forward_result rs ([], []))\<rparr>)
       \<and> \<not> reschedules (snd (pollComparison_poll cid (Fetched rs) (s, c)))
       \<and> delays (snd (pollComparison_poll cid (Fetched rs) (s, c))) = []
       \<and> fetches (snd (pollComparison_poll cid (Fetched rs) (s, c))) = 1"
proof -
  have full: "\<not> length (fst (fold forward_result rs (seen c, []))) < expectedCount c"
    using assms by (simp add: fold_forward_card)
  obtain s1 c1 es where r: "pollComparison_poll cid (Fetched rs) (s, c) = ((s1, c1), es)"
    by (metis surj_pair)
  note ps = poll_step_props [OF r, of undefined]
  have nd: "delays (snd (fold forward_result rs (seen c, []))) = []"
    by (rule fold_forward_inv [THEN conjunct2, THEN conjunct2, THEN conjunct2, THEN conjunct1])
  have es: "es = Fetch ''GET'' (''/api/compare/'' @ cid) [] # snd (fold forward_result rs (seen c, []))
                 @ [toast ''Comparison complete'' ''success'']"
    and st: "(s1, c1) = (s\<lparr>isComparing := False\<rparr>, c\<lparr>seen := fst (fold forward_result rs (seen c, []))\<rparr>)"
    using r full by (simp_all add: poll_fetched Let_def)
  have d: "delays es = []" unfolding es by (simp add: delays_Cons delays_append delays_Nil nd toast_def)
  have f: "fetches es = 1"
    by (rule ps [THEN conjunct2, THEN conjunct2, THEN conjunct2, THEN conjunct2, THEN conjunct2,
          THEN conjunct2, THEN conjunct2])
  show ?thesis unfolding r using st d f assms(2) by (simp add: reschedules_def)
qed

text \<open>
  Claim C2, as the code has it, for the batch job that \<open>pollJob\<close> follows. Started on a
  running panel, the poll loop never shows \<open>Pending\<close> again, leaves the panel untouched
  while the job runs, and once the status is \<open>Completed\<close> or \<open>Failed\<close> no later outcome of
  a fetch changes the panel or the trace: the loop has stopped. The progress tracker keeps
  no status and has no such latch.
\<close>

theorem batch_status_monotone:
  assumes "batchRunning s"
  shows "batch_status (fst (pollJob j fs s)) \<noteq> Pending
       \<and> (batchRunning (fst (pollJob j fs s)) \<longrightarrow> fst (pollJob j fs s) = s)
       \<and> (batch_status (fst (pollJob j fs s)) = Completed \<or> batch_status (fst (pollJob j fs s)) = Failed
            \<longrightarrow> (\<forall>gs. pollJob j (fs @ gs) s = pollJob j fs s))"
proof -
  have fstp: "fst (pollJob j hs s) = fst (pollJob_loop j hs s)" for hs
    by (simp add: pollJob_def split_beta)
  note inv = pollJob_loop_inv [OF assms, of j fs]
  have i1: "batchRunning (fst (pollJob_loop j fs s)) \<longrightarrow> fst (pollJob_loop j fs s) = s"
    by (rule inv [THEN conjunct1])
  have i2: "\<not> batchRunning (fst (pollJob_loop j fs s)) \<longrightarrow>
            batchStatus (fst (pollJob_loop j fs s)) \<noteq> []
            \<and> (\<forall>gs. pollJob_loop j (fs @ gs) s = pollJob_loop j fs s)"
    by (rule inv [THEN conjunct2])
  have a: "batch_status (fst (pollJob j fs s)) \<noteq> Pending"
    unfolding fstp using i2 by (simp add: batch_status_def)
  have b: "batchRunning (fst (pollJob j fs s)) \<longrightarrow> fst (pollJob j fs s) = s"
    unfolding fstp by (rule i1)
  have c: "batch_status (fst (pollJob j fs s)) = Completed \<or> batch_status (fst (pollJob j fs s)) = Failed
            \<longrightarrow> (\<forall>gs. pollJob j (fs @ gs) s = pollJob j fs s)"
  proof
    assume "batch_status (fst (pollJob j fs s)) = Completed \<or> batch_status (fst (pollJob j fs s)) = Failed"
    then have "\<not> batchRunning (fst (pollJob_loop j fs s))"
      unfolding fstp by (auto simp: batch_status_def split: if_splits)
    with i2 have "\<forall>gs. pollJob_loop j (fs @ gs) s = pollJob_loop j fs s" by simp
    then show "\<forall>gs. pollJob j (fs @ gs) s = pollJob j fs s" by (simp add: pollJob_def)
  qed
  from a b c show ?thesis by (intro conjI)
qed

text \<open>Claim C2 on a job that completes at its second poll; a later \<open>failed\<close> snapshot is
  never fetched.\<close>

theorem batch_status_monotone_witness:
  "batch_status (fst (pollJob ''job'' [FetchError, Fetched (snapshot ''completed'' 8 1 1)] running_batch)) = Completed
   \<and> pollJob ''job'' ([FetchError, Fetched (snapshot ''completed'' 8 1 1)] @ [Fetched (snapshot ''failed'' 0 0 0)]) running_batch
       = pollJob ''job'' [FetchError, Fetched (snapshot ''completed'' 8 1 1)] running_batch"
proof -
  have h: "batchRunning running_batch" by (simp add: running_batch_def)
  let ?fs = "[FetchError, Fetched (snapshot ''completed'' 8 1 1)]"
  have st: "batch_status (fst (pollJob ''job'' ?fs running_batch)) = Completed"
    by (simp add: pollJob_def pollJob_poll_error reschedules_simps snapshot_def pollJob_poll_completed
        first_result_def complete_status_def batch_status_def)
  have "\<forall>gs. pollJob ''job'' (?fs @ gs) running_batch = pollJob ''job'' ?fs running_batch"
    using batch_status_monotone [OF h, of "''job''" ?fs, THEN conjunct2, THEN conjunct2] st by simp
  then have "pollJob ''job'' (?fs @ [Fetched (snapshot ''failed'' 0 0 0)]) running_batch
       = pollJob ''job'' ?fs running_batch" by (rule spec)
  with st show ?thesis by (rule conjI)
qed

text \<open>
  Claim C2 as stated fails for the progress tracker: after \<open>image_complete\<close> it shows the
  completed state, and a later \<open>tile_progress\<close> event puts it back to 50 percent and a
  tile label.
\<close>

theorem tracker_leaves_completed:
  "tracker_status (tracker_handleWSEvent 1000 (plain_ev ''image_complete'') (tracker_init 0 progressTracker0))
     = Completed
   \<and> tracker_status (tracker_handleWSEvent 2000 (tile_ev 1 2 1 1)
        (tracker_handleWSEvent 1000 (plain_ev ''image_complete'') (tracker_init 0 progressTracker0)))
     = Running"
proof -
  have a: "tracker_handleWSEvent 1000 (plain_ev ''image_complete'') (tracker_init 0 progressTracker0)
      = \<lparr>progressPercent = Fin 100, progressLabel = ''Complete!'', startTime = Some 0\<rparr>"
    by (simp add: tracker_handleWSEvent_def plain_ev_def on_image_complete_def tracker_init_def progressTracker0_def)
  have t: "ev_type (tile_ev 1 2 1 1) = ''tile_progress''" by (simp add: tile_ev_def)
  have b: "progressPercent (tracker_handleWSEvent 2000 (tile_ev 1 2 1 1)
        \<lparr>progressPercent = Fin 100, progressLabel = ''Complete!'', startTime = Some 0\<rparr>) = Fin 50"
    unfolding handle_tile_progress [OF t]
    using double_1_2
    by (simp add: on_tile_progress_def tile_percent_fin tile_ev_def num_or_def)
  have c: "progressLabel (tracker_handleWSEvent 2000 (tile_ev 1 2 1 1)
        \<lparr>progressPercent = Fin 100, progressLabel = ''Complete!'', startTime = Some 0\<rparr>) = ''Tiles: 1/2''"
    unfolding handle_tile_progress [OF t]
    using double_two
    by (simp add: on_tile_progress_def tile_label_def eta_suffix_def
        elapsed_def tile_ev_def num_or_def show_simps)
  show ?thesis unfolding a by (simp add: tracker_status_def b c)
qed


lemma pollJob_three:
  assumes "status data = ''completed'' \<or> status data = ''failed''"
  shows "fetches (snd (pollJob j ([FetchError, FetchError, Fetched data] @ rest) s)) = 3
       \<and> delays (snd (pollJob j ([FetchError, FetchError, Fetched data] @ rest) s)) = [1000, 3000, 3000]
       \<and> pollJob j ([FetchError, FetchError, Fetched data] @ rest) s
           = pollJob j [FetchError, FetchError, Fetched data] s"
proof -
  have l: "pollJob_loop j (Fetched data # hs) s = pollJob_poll j (Fetched data) s" for hs
    by (rule pollJob_loop_terminal [OF assms])
  have e: "pollJob j ([FetchError, FetchError, Fetched data] @ hs) s =
     (fst (pollJob_poll j (Fetched data) s),
      SetTimeout (PollJob j) 1000
      # concat (replicate 2 [Fetch ''GET'' (''/api/jobs/'' @ j) [], SetTimeout (PollJob j) 3000])
      @ snd (pollJob_poll j (Fetched data) s))" for hs
    using pollJob_errors [of j 2 "Fetched data # hs" s] unfolding l
    by (simp add: numeral_2_eq_2)
  have t: "fetches (snd (pollJob_poll j (Fetched data) s)) = 1 \<and> delays (snd (pollJob_poll j (Fetched data) s)) = []"
    using assms
    by (auto simp: pollJob_poll_completed pollJob_poll_failed fetches_def delays_Cons delays_Nil)
  have a: "fetches (snd (pollJob j ([FetchError, FetchError, Fetched data] @ rest) s)) = 3"
    unfolding e using t by (simp add: fetches_def numeral_2_eq_2)
  have b: "delays (snd (pollJob j ([FetchError, FetchError, Fetched data] @ rest) s)) = [1000, 3000, 3000]"
    unfolding e using t by (simp add: delays_Cons delays_append delays_Nil numeral_2_eq_2)
  have c: "pollJob j ([FetchError, FetchError, Fetched data] @ rest) s
           = pollJob j [FetchError, FetchError, Fetched data] s"
    using e [of rest] e [of "[]"] by simp
  from a b c show ?thesis by (intro conjI)
qed

lemma pollComparison_three:
  assumes "length (compareModels a) \<le> card (result_model_id ` set rs)"
  shows "fetches (snd (pollComparison cid (map Poll ([FetchError, FetchError, Fetched rs] @ rest)) a)) = 3
       \<and> delays (snd (pollComparison cid (map Poll ([FetchError, FetchError, Fetched rs] @ rest)) a))
           = [2000, 2000, 2000]
       \<and> pollComparison cid (map Poll ([FetchError, FetchError, Fetched rs] @ rest)) a
           = pollComparison cid (map Poll [FetchError, FetchError, Fetched rs]) a"
proof -
  let ?c = "\<lparr>expectedCount = length (compareModels a), seen = []\<rparr>"
  let ?p = "pollComparison_poll cid (Fetched rs) (a, ?c)"
  have h: "expectedCount ?c \<le> card (result_model_id ` set rs)" "seen ?c = []"
    using assms by simp_all
  note pc = poll_complete [OF h, of cid a]
  have nr: "\<not> reschedules (snd ?p)" by (rule pc [THEN conjunct2, THEN conjunct1])
  have nd: "delays (snd ?p) = []" by (rule pc [THEN conjunct2, THEN conjunct2, THEN conjunct1])
  have nf: "fetches (snd ?p) = 1" by (rule pc [THEN conjunct2, THEN conjunct2, THEN conjunct2])
  have run: "comparison_run cid (map Poll (Fetched rs # hs)) (a, ?c, True)
             = ((fst (fst ?p), snd (fst ?p), False), snd ?p)" for hs
  proof -
    obtain s1 c1 es1 where r: "?p = ((s1, c1), es1)" by (metis surj_pair)
    have "\<not> reschedules es1" using nr r by simp
    then show ?thesis
      using r comparison_run_stopped [of cid hs s1 c1] by simp
  qed
  have e: "pollComparison cid (map Poll ([FetchError, FetchError, Fetched rs] @ hs)) a =
     ((fst (fst ?p), snd (fst ?p), False),
      SetTimeout (PollComparison cid) 2000
      # concat (replicate 2 [Fetch ''GET'' (''/api/compare/'' @ cid) [], SetTimeout (PollComparison cid) 2000])
      @ snd ?p)" for hs
  proof -
    have sp: "map Poll ([FetchError, FetchError, Fetched rs] @ hs)
          = map Poll (replicate 2 FetchError) @ map Poll (Fetched rs # hs)"
      by (simp add: numeral_2_eq_2)
    show ?thesis unfolding sp pollComparison_errors run by simp
  qed
  have a: "fetches (snd (pollComparison cid (map Poll ([FetchError, FetchError, Fetched rs] @ rest)) a)) = 3"
    unfolding e using nf by (simp add: fetches_def numeral_2_eq_2)
  have b: "delays (snd (pollComparison cid (map Poll ([FetchError, FetchError, Fetched rs] @ rest)) a))
           = [2000, 2000, 2000]"
    unfolding e using nd by (simp add: delays_Cons delays_append delays_Nil numeral_2_eq_2)
  have c: "pollComparison cid (map Poll ([FetchError, FetchError, Fetched rs] @ rest)) a
           = pollComparison cid (map Poll [FetchError, FetchError, Fetched rs]) a"
    using e [of rest] e [of "[]"] by simp
  from a b c show ?thesis by (intro conjI)
qed


lemma last_retries:
  "last (x # concat (replicate n [Fetch m u b, SetTimeout c ms])) = (if n = 0 then x else SetTimeout c ms)"
  by (induction n) (auto split: if_splits)

lemma fold_forward_length:
  "length (fst (fold forward_result rs (sn, []))) = length sn + card (result_model_id ` set rs - set sn)"
proof (induction rs arbitrary: sn)
  case Nil
  then show ?case by simp
next
  case (Cons r rs)
  show ?case
  proof (cases "result_model_id r \<in> set sn")
    case True
    then have e: "fold forward_result (r # rs) (sn, []) = fold forward_result rs (sn, [])"
      by (simp add: forward_result_def)
    have "result_model_id ` set (r # rs) - set sn = result_model_id ` set rs - set sn"
      using True by auto
    then show ?thesis unfolding e Cons.IH by simp
  next
    case False
    have "fst (fold forward_result (r # rs) (sn, []))
            = fst (fold forward_result rs (sn @ [result_model_id r], [Dispatch (ComparisonResult (result_detail r))]))"
      using False by (simp add: forward_result_def)
    also have "\<dots> = fst (fold forward_result rs (sn @ [result_model_id r], []))"
      by (rule fold_forward_seen)
    finally have e: "fst (fold forward_result (r # rs) (sn, []))
            = fst (fold forward_result rs (sn @ [result_model_id r], []))" .
    have "result_model_id ` set (r # rs) - set sn
            = insert (result_model_id r) (result_model_id ` set rs - set (sn @ [result_model_id r]))"
      using False by auto
    then have "card (result_model_id ` set (r # rs) - set sn)
            = Suc (card (result_model_id ` set rs - set (sn @ [result_model_id r])))"
      by simp
    then show ?thesis unfolding e Cons.IH by simp
  qed
qed

lemma poll_steady:
  "delays (snd (pollComparison_poll cid (Fetched rs) (a, c)))
     = (if length (seen c) + card (result_model_id ` set rs - set (seen c)) < expectedCount c
        then [1500] else [])"
proof -
  have nd: "delays (snd (fold forward_result rs (seen c, []))) = []"
    by (rule fold_forward_inv [THEN conjunct2, THEN conjunct2, THEN conjunct2, THEN conjunct1])
  show ?thesis using nd
    by (simp add: poll_fetched Let_def delays_Cons delays_append delays_Nil fold_forward_length toast_def)
qed

text \<open>
  Claim C5, as the code has it. After a failed fetch \<open>pollJob\<close> retries after 3000 ms, its
  steady interval being 2000 ms after every snapshot that is not terminal; \<open>pollComparison\<close>
  retries after 2000 ms, its steady interval being 1500 ms after every snapshot that leaves
  the set \<open>seen\<close>, whatever it held before, with fewer members than are expected, and no
  timeout being set otherwise. After \<open>n\<close> failures in a row \<open>n\<close> fetches were made and the next
  timeout is set, so failures alone never end a loop. When the fetch fails twice and then
  returns a terminal snapshot, exactly three fetches are made and nothing that follows is
  fetched; the delays are 1000, 3000, 3000 ms in \<open>pollJob\<close> and 2000, 2000, 2000 ms in
  \<open>pollComparison\<close>, whose first delay is as long as its retry delay.
\<close>

theorem poll_backoff:
  "pollJob_poll j FetchError s = (s, [Fetch ''GET'' (''/api/jobs/'' @ j) [], SetTimeout (PollJob j) 3000])
   \<and> (status data \<noteq> ''completed'' \<and> status data \<noteq> ''failed'' \<longrightarrow>
        delays (snd (pollJob_poll j (Fetched data) s)) = [2000])
   \<and> pollComparison_poll cid FetchError (a, c)
        = ((a, c), [Fetch ''GET'' (''/api/compare/'' @ cid) [], SetTimeout (PollComparison cid) 2000])
   \<and> delays (snd (pollComparison_poll cid (Fetched rs) (a, c)))
       = (if length (seen c) + card (result_model_id ` set rs - set (seen c)) < expectedCount c
          then [1500] else [])
   \<and> delays (snd (pollJob j (replicate n FetchError) s)) = 1000 # replicate n 3000
   \<and> fetches (snd (pollJob j (replicate n FetchError) s)) = n
   \<and> delays (snd (pollComparison cid (map Poll (replicate n FetchError)) a)) = 2000 # replicate n 2000
   \<and> fetches (snd (pollComparison cid (map Poll (replicate n FetchError)) a)) = n
   \<and> (status final = ''completed'' \<or> status final = ''failed'' \<longrightarrow>
        fetches (snd (pollJob j ([FetchError, FetchError, Fetched final] @ rest) s)) = 3
        \<and> delays (snd (pollJob j ([FetchError, FetchError, Fetched final] @ rest) s)) = [1000, 3000, 3000]
        \<and> pollJob j ([FetchError, FetchError, Fetched final] @ rest) s
            = pollJob j [FetchError, FetchError, Fetched final] s)
   \<and> (length (compareModels a) \<le> card (result_model_id ` set rs') \<longrightarrow>
        fetches (snd (pollComparison cid (map Poll ([FetchError, FetchError, Fetched rs'] @ rest')) a)) = 3
        \<and> delays (snd (pollComparison cid (map Poll ([FetchError, FetchError, Fetched rs'] @ rest')) a))
            = [2000, 2000, 2000]
        \<and> pollComparison cid (map Poll ([FetchError, FetchError, Fetched rs'] @ rest')) a
            = pollComparison cid (map Poll [FetchError, FetchError, Fetched rs']) a)"
proof -
  have a1: "pollJob_poll j FetchError s = (s, [Fetch ''GET'' (''/api/jobs/'' @ j) [], SetTimeout (PollJob j) 3000])"
    by (rule pollJob_poll_error)
  have a2: "status data \<noteq> ''completed'' \<and> status data \<noteq> ''failed'' \<longrightarrow>
        delays (snd (pollJob_poll j (Fetched data) s)) = [2000]"
    by (simp add: pollJob_poll_steady delays_Cons delays_Nil)
  have a3: "pollComparison_poll cid FetchError (a, c)
        = ((a, c), [Fetch ''GET'' (''/api/compare/'' @ cid) [], SetTimeout (PollComparison cid) 2000])"
    by (rule pollComparison_poll_error)
  have a4: "delays (snd (pollComparison_poll cid (Fetched rs) (a, c)))
       = (if length (seen c) + card (result_model_id ` set rs - set (seen c)) < expectedCount c
          then [1500] else [])"
    by (rule poll_steady)
  have pj: "pollJob j (replicate n FetchError) s =
     (s, SetTimeout (PollJob j) 1000
         # concat (replicate n [Fetch ''GET'' (''/api/jobs/'' @ j) [], SetTimeout (PollJob j) 3000]))"
    using pollJob_errors [of j n "[]" s] by simp
  have pc: "pollComparison cid (map Poll (replicate n FetchError)) a =
     ((a, \<lparr>expectedCount = length (compareModels a), seen = []\<rparr>, True),
      SetTimeout (PollComparison cid) 2000
      # concat (replicate n [Fetch ''GET'' (''/api/compare/'' @ cid) [], SetTimeout (PollComparison cid) 2000]))"
    using pollComparison_errors [of cid n "[]" a] by simp
  have a5: "delays (snd (pollJob j (replicate n FetchError) s)) = 1000 # replicate n 3000"
    unfolding pj by (simp add: delays_Cons delays_retries)
  have a6: "fetches (snd (pollJob j (replicate n FetchError) s)) = n"
    unfolding pj using fetches_retries [of n "''GET''" "''/api/jobs/'' @ j" "[]" "PollJob j" 3000]
    by (simp add: fetches_def)
  have a7: "delays (snd (pollComparison cid (map Poll (replicate n FetchError)) a)) = 2000 # replicate n 2000"
    unfolding pc by (simp add: delays_Cons delays_retries)
  have a8: "fetches (snd (pollComparison cid (map Poll (replicate n FetchError)) a)) = n"
    unfolding pc using fetches_retries [of n "''GET''" "''/api/compare/'' @ cid" "[]" "PollComparison cid" 2000]
    by (simp add: fetches_def)
  have a9: "status final = ''completed'' \<or> status final = ''failed'' \<longrightarrow>
        fetches (snd (pollJob j ([FetchError, FetchError, Fetched final] @ rest) s)) = 3
        \<and> delays (snd (pollJob j ([FetchError, FetchError, Fetched final] @ rest) s)) = [1000, 3000, 3000]
        \<and> pollJob j ([FetchError, FetchError, Fetched final] @ rest) s
            = pollJob j [FetchError, FetchError, Fetched final] s"
    by (rule impI) (rule pollJob_three)
  have a10: "length (compareModels a) \<le> card (result_model_id ` set rs') \<longrightarrow>
        fetches (snd (pollComparison cid (map Poll ([FetchError, FetchError, Fetched rs'] @ rest')) a)) = 3
        \<and> delays (snd (pollComparison cid (map Poll ([FetchError, FetchError, Fetched rs'] @ rest')) a))
            = [2000, 2000, 2000]
        \<and> pollComparison cid (map Poll ([FetchError, FetchError, Fetched rs'] @ rest')) a
            = pollComparison cid (map Poll [FetchError, FetchError, Fetched rs']) a"
    by (rule impI) (rule pollComparison_three)
  from a1 a2 a3 a4 a5 a6 a7 a8 a9 a10 show ?thesis by (intro conjI)
qed

lemma three_models: "card (result_model_id ` set [result_for ''A'', result_for ''B'', result_for ''C'']) = 3"
  by (simp add: result_for_def)

text \<open>
  Claim C5 as stated fails for \<open>pollComparison\<close>: with two failures and then all three
  results, three fetches are made, and the second is not scheduled after a longer delay
  than the first (both 2000 ms).
\<close>

theorem comparison_retry_not_longer:
  "fetches (snd (pollComparison ''c1''
      (map Poll [FetchError, FetchError, Fetched [result_for ''A'', result_for ''B'', result_for ''C'']])
      comparing_app)) = 3
   \<and> \<not> (delays (snd (pollComparison ''c1''
      (map Poll [FetchError, FetchError, Fetched [result_for ''A'', result_for ''B'', result_for ''C'']])
      comparing_app)) ! 0
      < delays (snd (pollComparison ''c1''
      (map Poll [FetchError, FetchError, Fetched [result_for ''A'', result_for ''B'', result_for ''C'']])
      comparing_app)) ! 1)"
proof -
  let ?rs = "[result_for ''A'', result_for ''B'', result_for ''C'']"
  have h: "length (compareModels comparing_app) \<le> card (result_model_id ` set ?rs)"
    unfolding three_models by (simp add: comparing_app_def app0_def)
  note t = pollComparison_three [OF h, of "''c1''" "[]"]
  have f: "fetches (snd (pollComparison ''c1'' (map Poll [FetchError, FetchError, Fetched ?rs]) comparing_app)) = 3"
    using t [THEN conjunct1] by simp
  have d: "delays (snd (pollComparison ''c1'' (map Poll [FetchError, FetchError, Fetched ?rs]) comparing_app))
      = [2000, 2000, 2000]"
    using t [THEN conjunct2, THEN conjunct1] by simp
  show ?thesis unfolding d using f by simp
qed

text \<open>Claim C5 at a running and a completed batch snapshot and at a comparison of three
  models, of which one was seen before the snapshot and a second comes with it.\<close>

theorem poll_backoff_witness:
  "delays (snd (pollJob_poll ''job'' (Fetched (snapshot ''running'' 0 0 0)) running_batch)) = [2000]
   \<and> delays (snd (pollComparison_poll ''c1'' (Fetched [result_for ''B'', result_for ''A''])
        (comparing_app, \<lparr>expectedCount = 3, seen = [''B'']\<rparr>))) = [1500]
   \<and> delays (snd (pollJob ''job'' ([FetchError, FetchError, Fetched (snapshot ''completed'' 8 1 1)] @ [FetchError])
        running_batch)) = [1000, 3000, 3000]
   \<and> fetches (snd (pollComparison ''c1''
        (map Poll ([FetchError, FetchError, Fetched [result_for ''A'', result_for ''B'', result_for ''C'']]
                   @ [FetchError])) comparing_app)) = 3"
proof -
  let ?rs = "[result_for ''A'', result_for ''B'', result_for ''C'']"
  let ?c = "\<lparr>expectedCount = 3, seen = [''B'']\<rparr>"
  note t = poll_backoff [of "''job''" running_batch "snapshot ''running'' 0 0 0" "''c1''" comparing_app
      ?c "[result_for ''B'', result_for ''A'']" 0 "snapshot ''completed'' 8 1 1" "[FetchError]" ?rs "[FetchError]"]
  have h2: "status (snapshot ''running'' 0 0 0) \<noteq> ''completed'' \<and> status (snapshot ''running'' 0 0 0) \<noteq> ''failed''"
    by (simp add: snapshot_def)
  have h4: "length (seen ?c) + card (result_model_id ` set [result_for ''B'', result_for ''A''] - set (seen ?c))
              < expectedCount ?c"
    by (simp add: result_for_def)
  have h9: "status (snapshot ''completed'' 8 1 1) = ''completed'' \<or> status (snapshot ''completed'' 8 1 1) = ''failed''"
    by (simp add: snapshot_def)
  have h10: "length (compareModels comparing_app) \<le> card (result_model_id ` set ?rs)"
    unfolding three_models by (simp add: comparing_app_def app0_def)
  have b2: "delays (snd (pollJob_poll ''job'' (Fetched (snapshot ''running'' 0 0 0)) running_batch)) = [2000]"
    using t [THEN conjunct2, THEN conjunct1] h2 by (rule mp)
  have b4: "delays (snd (pollComparison_poll ''c1'' (Fetched [result_for ''B'', result_for ''A'']) (comparing_app, ?c))) = [1500]"
    unfolding t [THEN conjunct2, THEN conjunct2, THEN conjunct2, THEN conjunct1] using h4 by simp
  have b9: "delays (snd (pollJob ''job'' ([FetchError, FetchError, Fetched (snapshot ''completed'' 8 1 1)] @ [FetchError])
        running_batch)) = [1000, 3000, 3000]"
    using t [THEN conjunct2, THEN conjunct2, THEN conjunct2, THEN conjunct2, THEN conjunct2,
        THEN conjunct2, THEN conjunct2, THEN conjunct2, THEN conjunct1, THEN mp, OF h9]
    by (rule conjunct2 [THEN conjunct1])
  have b10: "fetches (snd (pollComparison ''c1'' (map Poll ([FetchError, FetchError, Fetched ?rs] @ [FetchError]))
        comparing_app)) = 3"
    using t [THEN conjunct2, THEN conjunct2, THEN conjunct2, THEN conjunct2, THEN conjunct2,
        THEN conjunct2, THEN conjunct2, THEN conjunct2, THEN conjunct2, THEN mp, OF h10]
    by (rule conjunct1)
  from b2 b4 b9 b10 show ?thesis by (intro conjI)
qed

text \<open>
  Claim C6, as the code has it. After any number \<open>n\<close> of failed fetches in a row the state
  is what it was before, no toast was dispatched, and the last call made is the timeout
  for the next poll: a failure is never shown and always retried, and no count of failures
  ends the job.
\<close>

theorem poll_failures_retry_forever:
  "fst (pollJob j (replicate n FetchError) s) = s
   \<and> filter is_toast (snd (pollJob j (replicate n FetchError) s)) = []
   \<and> last (snd (pollJob j (replicate n FetchError) s)) = SetTimeout (PollJob j) (if n = 0 then 1000 else 3000)
   \<and> fst (pollComparison cid (map Poll (replicate n FetchError)) a)
        = (a, \<lparr>expectedCount = length (compareModels a), seen = []\<rparr>, True)
   \<and> filter is_toast (snd (pollComparison cid (map Poll (replicate n FetchError)) a)) = []
   \<and> last (snd (pollComparison cid (map Poll (replicate n FetchError)) a)) = SetTimeout (PollComparison cid) 2000"
proof -
  have pj: "pollJob j (replicate n FetchError) s =
     (s, SetTimeout (PollJob j) 1000
         # concat (replicate n [Fetch ''GET'' (''/api/jobs/'' @ j) [], SetTimeout (PollJob j) 3000]))"
    using pollJob_errors [of j n "[]" s] by simp
  have pc: "pollComparison cid (map Poll (replicate n FetchError)) a =
     ((a, \<lparr>expectedCount = length (compareModels a), seen = []\<rparr>, True),
      SetTimeout (PollComparison cid) 2000
      # concat (replicate n [Fetch ''GET'' (''/api/compare/'' @ cid) [], SetTimeout (PollComparison cid) 2000]))"
    using pollComparison_errors [of cid n "[]" a] by simp
  have a1: "fst (pollJob j (replicate n FetchError) s) = s" unfolding pj by simp
  have a2: "filter is_toast (snd (pollJob j (replicate n FetchError) s)) = []"
    unfolding pj by (simp add: toasts_retries)
  have a3: "last (snd (pollJob j (replicate n FetchError) s)) = SetTimeout (PollJob j) (if n = 0 then 1000 else 3000)"
    unfolding pj snd_conv last_retries by simp
  have a4: "fst (pollComparison cid (map Poll (replicate n FetchError)) a)
        = (a, \<lparr>expectedCount = length (compareModels a), seen = []\<rparr>, True)"
    unfolding pc by simp
  have a5: "filter is_toast (snd (pollComparison cid (map Poll (replicate n FetchError)) a)) = []"
    unfolding pc by (simp add: toasts_retries)
  have a6: "last (snd (pollComparison cid (map Poll (replicate n FetchError)) a)) = SetTimeout (PollComparison cid) 2000"
    unfolding pc snd_conv last_retries by simp
  from a1 a2 a3 a4 a5 a6 show ?thesis by (intro conjI)
qed

text \<open>
  Claim C6 as stated fails: there is no number of consecutive failed fetches after which
  the batch job is marked failed.
\<close>

theorem no_failure_bound:
  "\<not> (\<exists>n. batch_status (fst (pollJob ''job'' (replicate n FetchError) running_batch)) = Failed)"
proof -
  have "fst (pollJob ''job'' (replicate n FetchError) running_batch) = running_batch" for n
    using pollJob_errors [of "''job''" n "[]" running_batch] by simp
  moreover have "batch_status running_batch = Running"
    by (simp add: batch_status_def running_batch_def)
  ultimately show ?thesis by simp
qed


section \<open>Comparison results and submissions\<close>













text \<open>
  Claim C10. \<open>startUpscale\<close> without a file or a model, \<open>startComparison\<close> without a file or
  with an empty model list, and \<open>startBatch\<close> without an input directory or a model return
  the state unchanged and make no call: no request, no event, no toast.
\<close>

theorem submissions_guarded:
  "(uploadedFile a = None \<or> selectedModel a = [] \<longrightarrow> startUpscale resp a = (a, []))
   \<and> (uploadedFile a = None \<or> compareModels a = [] \<longrightarrow> startComparison cresp ins a = ((a, None), []))
   \<and> (batchInputDir b = [] \<or> batchModel b = [] \<longrightarrow> startBatch bresp fs b = (b, []))"
  by (auto simp: startUpscale_def startComparison_def startBatch_def split: option.split)

text \<open>Claim C10 with a file but no model, with nothing at all, and with an input directory
  but no model.\<close>

theorem submissions_guarded_witness:
  "startUpscale (Ok ''blob:1'') (app0\<lparr>uploadedFile := Some ''photo.png''\<rparr>)
     = (app0\<lparr>uploadedFile := Some ''photo.png''\<rparr>, [])
   \<and> startComparison (Rejected ''x'') [] app0 = ((app0, None), [])
   \<and> startBatch (Ok ''job'') [] (batchPanel0\<lparr>batchInputDir := ''in''\<rparr>)
     = (batchPanel0\<lparr>batchInputDir := ''in''\<rparr>, [])"
proof -
  note t = submissions_guarded [of "app0\<lparr>uploadedFile := Some ''photo.png''\<rparr>" "Ok ''blob:1''" _ _
      "batchPanel0\<lparr>batchInputDir := ''in''\<rparr>" "Ok ''job''" "[]"]
  note u = submissions_guarded [of app0 _ "Rejected ''x''" "[]"]
  have h1: "uploadedFile (app0\<lparr>uploadedFile := Some ''photo.png''\<rparr>) = None
            \<or> selectedModel (app0\<lparr>uploadedFile := Some ''photo.png''\<rparr>) = []"
    by (simp add: app0_def)
  have h2: "uploadedFile app0 = None \<or> compareModels app0 = []" by (simp add: app0_def)
  have h3: "batchInputDir (batchPanel0\<lparr>batchInputDir := ''in''\<rparr>) = []
            \<or> batchModel (batchPanel0\<lparr>batchInputDir := ''in''\<rparr>) = []"
    by (simp add: batchPanel0_def)
  have a: "startUpscale (Ok ''blob:1'') (app0\<lparr>uploadedFile := Some ''photo.png''\<rparr>)
     = (app0\<lparr>uploadedFile := Some ''photo.png''\<rparr>, [])"
    using t [THEN conjunct1] h1 by (rule mp)
  have b: "startComparison (Rejected ''x'') [] app0 = ((app0, None), [])"
    using u [THEN conjunct2, THEN conjunct1] h2 by (rule mp)
  have c: "startBatch (Ok ''job'') [] (batchPanel0\<lparr>batchInputDir := ''in''\<rparr>)
     = (batchPanel0\<lparr>batchInputDir := ''in''\<rparr>, [])"
    using t [THEN conjunct2, THEN conjunct2] h3 by (rule mp)
  from a b c show ?thesis by (intro conjI)
qed

lemma submissions_issue_request:
  "uploadedFile a = Some file \<Longrightarrow> selectedModel a \<noteq> [] \<Longrightarrow> fetches (snd (startUpscale resp a)) = 1"
  "batchInputDir b \<noteq> [] \<Longrightarrow> batchModel b \<noteq> [] \<Longrightarrow> is_fetch (hd (snd (startBatch bresp fs b)))"
  by (auto simp: startUpscale_def startBatch_def fetches_def toast_def Let_def split_beta
      split: response.split)


section \<open>The WebSocket channel\<close>


















end
